theory Spec2Isabelle
  imports Main "HOL-Library.Word"
begin

text \<open>
  The Authentica node for n8n: the credential type \<open>AuthenticaApi\<close>, the validation
  helpers \<open>isE164\<close> and \<open>isEmail\<close>, the request helper \<open>doRequest\<close> and the node's
  \<open>execute\<close>, embedded from \<open>AuthenticaApi.credentials.ts\<close>. The host
  (\<open>IExecuteFunctions\<close>) is a parameter of the embedding; every call into it is recorded.
\<close>

section \<open>JavaScript values\<close>

text \<open>
  A JavaScript string is a sequence of 16-bit code units. Literals of the source are
  ASCII and are written \<open>js ''...''\<close>.
\<close>

type_synonym code_unit = "16 word"
type_synonym jsstring = "code_unit list"

definition js :: "string \<Rightarrow> jsstring" where
  "js s = map of_char s"

text \<open>
  The values that parameters, request bodies and API responses range over. An object is
  its list of own properties in insertion order (\<open>IDataObject\<close>). The program only
  compares values, tests their truthiness and reads the properties \<open>data\<close> and
  \<open>balance\<close>; so numbers are carried as integers (\<open>NaN\<close>, the other falsy number, is not
  represented), and an array is represented by the object of its indices, from which
  these operations cannot tell it apart.
\<close>

datatype jsval =
    JUndefined
  | JNull
  | JBool bool
  | JNum int
  | JStr jsstring
  | JObj "(jsstring \<times> jsval) list"

type_synonym IDataObject = "(jsstring \<times> jsval) list"

text \<open>
  What a host call throws: an instance of \<open>NodeApiError\<close>, with its \<open>message\<close> and with
  its \<open>itemIndex\<close> when it has one, or any other value, with its \<open>message\<close>.
\<close>

datatype host_exception =
    ApiError jsstring "nat option"
  | OtherError jsstring

fun exception_message :: "host_exception \<Rightarrow> jsstring" where
  "exception_message (ApiError m idx) = m"
| "exception_message (OtherError m) = m"

text \<open>Errors that can be thrown while an item is processed, each with its \<open>message\<close>.\<close>

datatype js_error =
    NodeOperationError jsstring  \<comment> \<open>\<open>new NodeOperationError(this.getNode(), msg)\<close>\<close>
  | TypeError jsstring           \<comment> \<open>raised by the runtime (property read on null, call of a non-function)\<close>
  | HostError host_exception     \<comment> \<open>whatever a host call threw (parameters, credentials, transport)\<close>

fun message :: "js_error \<Rightarrow> jsstring" where
  "message (NodeOperationError m) = m"
| "message (TypeError m) = m"
| "message (HostError x) = exception_message x"

definition nullish :: "jsval \<Rightarrow> bool" where
  "nullish v = (v = JUndefined \<or> v = JNull)"

text \<open>\<open>a ?? b\<close>\<close>

definition coalesce :: "jsval \<Rightarrow> jsval \<Rightarrow> jsval" where
  "coalesce a b = (if nullish a then b else a)"

text \<open>ToBoolean, as used by \<open>&&\<close>, \<open>||\<close> and \<open>if\<close>.\<close>

fun truthy :: "jsval \<Rightarrow> bool" where
  "truthy JUndefined = False"
| "truthy JNull = False"
| "truthy (JBool b) = b"
| "truthy (JNum n) = (n \<noteq> 0)"
| "truthy (JStr s) = (s \<noteq> [])"
| "truthy (JObj kvs) = True"

definition field :: "IDataObject \<Rightarrow> jsstring \<Rightarrow> jsval" where
  "field kvs k = (case map_of kvs k of None \<Rightarrow> JUndefined | Some v \<Rightarrow> v)"

text \<open>
  \<open>v.k\<close> for the keys this program reads (\<open>data\<close>, \<open>balance\<close>): a TypeError on
  \<open>undefined\<close> and \<open>null\<close>, the own property of an object, and \<open>undefined\<close> on a
  primitive (no primitive wrapper defines these keys).
\<close>

fun get_prop :: "jsval \<Rightarrow> jsstring \<Rightarrow> js_error + jsval" where
  "get_prop JUndefined k = Inl (TypeError (js ''Cannot read properties of undefined (reading '' @ [0x27] @ k @ [0x27] @ js '')''))"
| "get_prop JNull k = Inl (TypeError (js ''Cannot read properties of null (reading '' @ [0x27] @ k @ [0x27] @ js '')''))"
| "get_prop (JObj kvs) k = Inr (field kvs k)"
| "get_prop v k = Inr JUndefined"

text \<open>\<open>v?.k\<close>\<close>

fun opt_prop :: "jsval \<Rightarrow> jsstring \<Rightarrow> jsval" where
  "opt_prop (JObj kvs) k = field kvs k"
| "opt_prop v k = JUndefined"

text \<open>\<open>o.k = v\<close> on an object: an existing key keeps its place, a new one goes last.\<close>

fun set_field :: "('k \<times> 'v) list \<Rightarrow> 'k \<Rightarrow> 'v \<Rightarrow> ('k \<times> 'v) list" where
  "set_field [] k v = [(k, v)]"
| "set_field ((k', v') # kvs) k v =
     (if k' = k then (k, v) # kvs else (k', v') # set_field kvs k v)"

section \<open>Regular expressions\<close>

text \<open>
  The two patterns of the source use literal characters, \<open>\d\<close>, bracket expressions with
  ranges and \<open>\s\<close>, \<open>+\<close> and \<open>{m,n}\<close>. Both are anchored with \<open>^\<close> and \<open>$\<close> and carry
  no flag, so \<open>test\<close> succeeds exactly when the whole string matches the body. Matching
  works on code units (no \<open>u\<close> flag).
\<close>

text \<open>
  WhiteSpace and LineTerminator code units of ECMAScript: what \<open>\s\<close> matches and what
  \<open>String.prototype.trim\<close> strips.
\<close>

definition is_space :: "code_unit \<Rightarrow> bool" where
  "is_space c = (c \<in> {0x0009, 0x000A, 0x000B, 0x000C, 0x000D, 0x0020, 0x00A0, 0x1680,
      0x2000, 0x2001, 0x2002, 0x2003, 0x2004, 0x2005, 0x2006, 0x2007, 0x2008, 0x2009, 0x200A,
      0x2028, 0x2029, 0x202F, 0x205F, 0x3000, 0xFEFF})"

definition is_digit :: "code_unit \<Rightarrow> bool" where
  "is_digit c = (0x30 \<le> c \<and> c \<le> 0x39)"

datatype class_item =
    Single code_unit          \<comment> \<open>a character\<close>
  | Range code_unit code_unit \<comment> \<open>\<open>a-b\<close>\<close>
  | ClassD                    \<comment> \<open>\<open>\d\<close>\<close>
  | ClassS                    \<comment> \<open>\<open>\s\<close>\<close>

fun item_matches :: "class_item \<Rightarrow> code_unit \<Rightarrow> bool" where
  "item_matches (Single a) c = (c = a)"
| "item_matches (Range a b) c = (a \<le> c \<and> c \<le> b)"
| "item_matches ClassD c = is_digit c"
| "item_matches ClassS c = is_space c"

datatype regex =
    Fail                        \<comment> \<open>matches nothing\<close>
  | Eps                         \<comment> \<open>matches the empty string\<close>
  | Atom class_item             \<comment> \<open>a literal or escaped character, \<open>\d\<close>, \<open>\s\<close>\<close>
  | Bracket bool "class_item list" \<comment> \<open>\<open>[...]\<close>; \<open>True\<close> for the negated \<open>[^...]\<close>\<close>
  | Seq regex regex
  | Alt regex regex
  | Plus regex                  \<comment> \<open>\<open>r+\<close>\<close>
  | Repeat nat nat regex        \<comment> \<open>\<open>r{m,n}\<close>\<close>

definition bracket_matches :: "bool \<Rightarrow> class_item list \<Rightarrow> code_unit \<Rightarrow> bool" where
  "bracket_matches neg its c = (list_ex (\<lambda>it. item_matches it c) its \<noteq> neg)"

fun nullable :: "regex \<Rightarrow> bool" where
  "nullable Fail = False"
| "nullable Eps = True"
| "nullable (Atom it) = False"
| "nullable (Bracket neg its) = False"
| "nullable (Seq r s) = (nullable r \<and> nullable s)"
| "nullable (Alt r s) = (nullable r \<or> nullable s)"
| "nullable (Plus r) = nullable r"
| "nullable (Repeat m n r) = (m \<le> n \<and> (m = 0 \<or> nullable r))"

text \<open>The expression matching what may follow the code unit \<open>c\<close>.\<close>

fun deriv :: "code_unit \<Rightarrow> regex \<Rightarrow> regex" where
  "deriv c Fail = Fail"
| "deriv c Eps = Fail"
| "deriv c (Atom it) = (if item_matches it c then Eps else Fail)"
| "deriv c (Bracket neg its) = (if bracket_matches neg its c then Eps else Fail)"
| "deriv c (Seq r s) =
     (if nullable r then Alt (Seq (deriv c r) s) (deriv c s) else Seq (deriv c r) s)"
| "deriv c (Alt r s) = Alt (deriv c r) (deriv c s)"
| "deriv c (Plus r) = Seq (deriv c r) (Alt Eps (Plus r))"
| "deriv c (Repeat m n r) =
     (if n = 0 then Fail else Seq (deriv c r) (Repeat (m - 1) (n - 1) r))"

fun matches :: "regex \<Rightarrow> jsstring \<Rightarrow> bool" where
  "matches r [] = nullable r"
| "matches r (c # cs) = matches (deriv c r) cs"

text \<open>\<open>String.prototype.trim\<close>\<close>

definition trim :: "jsstring \<Rightarrow> jsstring" where
  "trim s = rev (dropWhile is_space (rev (dropWhile is_space s)))"

section \<open>The validation helpers\<close>

text \<open>\<open>/^\+[1-9]\d{6,14}$/\<close>\<close>

definition e164_pattern :: regex where
  "e164_pattern =
     Seq (Atom (Single (of_char CHR ''+'')))
       (Seq (Bracket False [Range (of_char CHR ''1'') (of_char CHR ''9'')])
         (Repeat 6 14 (Atom ClassD)))"

text \<open>\<open>/^[^\s@]+@[^\s@]+\.[^\s@]+$/\<close>\<close>

definition email_pattern :: regex where
  "email_pattern =
     Seq (Plus (Bracket True [ClassS, Single (of_char CHR ''@'')]))
       (Seq (Atom (Single (of_char CHR ''@'')))
         (Seq (Plus (Bracket True [ClassS, Single (of_char CHR ''@'')]))
           (Seq (Atom (Single (of_char CHR ''.'')))
             (Plus (Bracket True [ClassS, Single (of_char CHR ''@'')])))))"

text \<open>
  \<open>(v ?? '').trim()\<close>: \<open>undefined\<close> and \<open>null\<close> become the empty string; a value that is
  neither nullish nor a string has no \<open>trim\<close> method, and the call throws a TypeError
  whose message names the expression, with the name of the function's parameter.
\<close>

fun coalesce_trim :: "string \<Rightarrow> jsval \<Rightarrow> js_error + jsstring" where
  "coalesce_trim name JUndefined = Inr (trim [])"
| "coalesce_trim name JNull = Inr (trim [])"
| "coalesce_trim name (JStr s) = Inr (trim s)"
| "coalesce_trim name v =
     Inl (TypeError (js (''('' @ name @ '' ?? '') @ [0x22, 0x22] @ js '').trim is not a function''))"

definition isE164 :: "jsval \<Rightarrow> js_error + bool" where
  "isE164 phone =
     (case coalesce_trim ''phone'' phone of Inl e \<Rightarrow> Inl e | Inr t \<Rightarrow> Inr (matches e164_pattern t))"

definition isEmail :: "jsval \<Rightarrow> js_error + bool" where
  "isEmail v =
     (case coalesce_trim ''v'' v of Inl e \<Rightarrow> Inl e | Inr t \<Rightarrow> Inr (matches email_pattern t))"

section \<open>The host boundary\<close>

datatype http_method = GET | POST | DELETE

record IHttpRequestOptions =
  opt_method :: http_method        \<comment> \<open>the \<open>method\<close> property of the options\<close>
  url :: jsstring
  headers :: "(jsstring \<times> jsstring) list"
  opt_json :: bool                 \<comment> \<open>the \<open>json\<close> property of the options\<close>
  body :: "IDataObject option"     \<comment> \<open>\<open>None\<close>: no \<open>body\<close> property\<close>

record INodeExecutionData =
  json :: IDataObject
  pairedItem :: "nat option"       \<comment> \<open>\<open>Some i\<close> for \<open>pairedItem: { item: i }\<close>\<close>

text \<open>
  Every call into the host is recorded, in order. A transport call is recorded with the
  options it was given and with what it returned or threw.
\<close>

datatype event =
    GetNodeParameter string nat
  | GetCredentials string
  | HttpRequest string IHttpRequestOptions "host_exception + jsval"

text \<open>
  The host (\<open>IExecuteFunctions\<close>). A host call returns a value or throws (\<open>Inl\<close>).
  Parameter and credential resolution depend on the name and the item index only; the transport may answer differently on every call,
  so it is given the record of all earlier calls. Credential properties are strings, as
  both properties of the credential type are declared with type \<open>string\<close>; \<open>None\<close> is
  an \<open>undefined\<close> credential object.
\<close>

record host =
  getInputData :: "INodeExecutionData list"
  getNodeParameter :: "string \<Rightarrow> nat \<Rightarrow> jsval option \<Rightarrow> host_exception + jsval"
  getCredentials :: "string \<Rightarrow> host_exception + (jsstring \<times> jsstring) list option"
  httpRequestWithAuthentication ::
    "event list \<Rightarrow> string \<Rightarrow> IHttpRequestOptions \<Rightarrow> host_exception + jsval"
  continueOnFail :: bool

text \<open>A computation that may throw, threading the record of host calls.\<close>

type_synonym 'a io = "event list \<Rightarrow> (js_error + 'a) \<times> event list"

definition io_return :: "'a \<Rightarrow> 'a io" where
  "io_return x = (\<lambda>tr. (Inr x, tr))"

definition io_throw :: "js_error \<Rightarrow> 'a io" where
  "io_throw e = (\<lambda>tr. (Inl e, tr))"

definition io_lift :: "js_error + 'a \<Rightarrow> 'a io" where
  "io_lift r = (\<lambda>tr. (r, tr))"

definition io_bind :: "'a io \<Rightarrow> ('a \<Rightarrow> 'b io) \<Rightarrow> 'b io" where
  "io_bind m f = (\<lambda>tr. case m tr of (Inl e, tr') \<Rightarrow> (Inl e, tr') | (Inr x, tr') \<Rightarrow> f x tr')"

definition host_result :: "host_exception + 'a \<Rightarrow> js_error + 'a" where
  "host_result r = (case r of Inl m \<Rightarrow> Inl (HostError m) | Inr x \<Rightarrow> Inr x)"

definition call_getNodeParameter :: "host \<Rightarrow> string \<Rightarrow> nat \<Rightarrow> jsval option \<Rightarrow> jsval io" where
  "call_getNodeParameter h name i fallback =
     (\<lambda>tr. (host_result (getNodeParameter h name i fallback), tr @ [GetNodeParameter name i]))"

definition call_getCredentials :: "host \<Rightarrow> string \<Rightarrow> (jsstring \<times> jsstring) list option io" where
  "call_getCredentials h name =
     (\<lambda>tr. (host_result (getCredentials h name), tr @ [GetCredentials name]))"

definition call_httpRequestWithAuthentication ::
    "host \<Rightarrow> string \<Rightarrow> IHttpRequestOptions \<Rightarrow> jsval io" where
  "call_httpRequestWithAuthentication h cred options =
     (\<lambda>tr. let r = httpRequestWithAuthentication h tr cred options
           in (host_result r, tr @ [HttpRequest cred options r]))"

section \<open>doRequest\<close>

text \<open>
  \<open>(creds?.baseUrl as string) || 'https://api.authentica.sa'\<close>: the default replaces a
  missing credential object, a missing property and the empty string.
\<close>

definition base_url :: "(jsstring \<times> jsstring) list option \<Rightarrow> jsstring" where
  "base_url creds =
     (case (case creds of None \<Rightarrow> None | Some c \<Rightarrow> map_of c (js ''baseUrl'')) of
        None \<Rightarrow> js ''https://api.authentica.sa''
      | Some u \<Rightarrow> if u = [] then js ''https://api.authentica.sa'' else u)"

definition doRequest ::
    "host \<Rightarrow> http_method \<Rightarrow> jsstring \<Rightarrow> IDataObject option \<Rightarrow> nat \<Rightarrow> jsval io" where
  "doRequest h method' path body' i =
     io_bind (call_getCredentials h ''authenticaApi'') (\<lambda>creds.
       let baseUrl = base_url creds;
           options = \<lparr> opt_method = method',
                       url = baseUrl @ path,
                       headers = [(js ''Content-Type'', js ''application/json''),
                                  (js ''Accept'', js ''application/json'')],
                       opt_json = True,
                       body = None \<rparr>;
           options = (if method' \<noteq> GET \<and> body' \<noteq> None
                      then options \<lparr> body := body' \<rparr> else options)
       in call_httpRequestWithAuthentication h ''authenticaApi'' options)"

section \<open>execute\<close>

text \<open>The branch \<open>resource === 'otp' && operation === 'send'\<close>; it assigns \<open>out\<close> and \<open>res\<close>.\<close>

definition otp_send :: "host \<Rightarrow> nat \<Rightarrow> (IDataObject \<times> jsval) io" where
  "otp_send h i =
     io_bind (call_getNodeParameter h ''otpMethod'' i None) (\<lambda>method.
     io_bind (call_getNodeParameter h ''phone'' i (Some (JStr []))) (\<lambda>phone.
     io_bind (call_getNodeParameter h ''email'' i (Some (JStr []))) (\<lambda>email.
     io_bind
       (if method \<noteq> JStr (js ''email'')
        then io_bind (io_lift (isE164 phone)) (\<lambda>ok.
               if \<not> ok
               then io_throw (NodeOperationError (js ''Phone must be E.164, e.g. +9665XXXXXXX''))
               else io_return ())
        else io_bind (io_lift (isEmail email)) (\<lambda>ok.
               if \<not> ok
               then io_throw (NodeOperationError (js ''Email is not valid''))
               else io_return ())) (\<lambda>_.
     let body = [(js ''method'', method)];
         body = (if method = JStr (js ''email'')
                 then set_field body (js ''email'') email
                 else set_field body (js ''phone'') phone)
     in io_bind (doRequest h POST (js ''/api/v2/send-otp'') (Some body) i) (\<lambda>res.
        io_return ([(js ''success'', JBool True)], res))))))"

text \<open>The branch \<open>resource === 'otp' && operation === 'verify'\<close>.\<close>

definition otp_verify :: "host \<Rightarrow> nat \<Rightarrow> (IDataObject \<times> jsval) io" where
  "otp_verify h i =
     io_bind (call_getNodeParameter h ''verifyWith'' i None) (\<lambda>verifyWith.
     io_bind (call_getNodeParameter h ''otp'' i None) (\<lambda>otp.
     let body = [(js ''otp'', otp)] in
     io_bind
       (if verifyWith = JStr (js ''email'')
        then io_bind (call_getNodeParameter h ''verifyEmail'' i None) (\<lambda>v.
               let body = set_field body (js ''email'') v in
               io_bind (io_lift (isEmail (field body (js ''email'')))) (\<lambda>ok.
                 if \<not> ok
                 then io_throw (NodeOperationError (js ''Email is not valid''))
                 else io_return body))
        else io_bind (call_getNodeParameter h ''verifyPhone'' i None) (\<lambda>v.
               let body = set_field body (js ''phone'') v in
               io_bind (io_lift (isE164 (field body (js ''phone'')))) (\<lambda>ok.
                 if \<not> ok
                 then io_throw (NodeOperationError (js ''Phone must be E.164, e.g. +9665XXXXXXX''))
                 else io_return body))) (\<lambda>body.
     io_bind (doRequest h POST (js ''/api/v2/verify-otp'') (Some body) i) (\<lambda>res.
     io_return ([(js ''verified'', JBool True)], res)))))"

text \<open>
  \<open>(res.data as IDataObject) ?? res\<close>, then
  \<open>data?.balance ?? (data?.data as IDataObject)?.balance\<close>.
\<close>

definition extract_balance :: "jsval \<Rightarrow> js_error + jsval" where
  "extract_balance res =
     (case get_prop res (js ''data'') of
        Inl e \<Rightarrow> Inl e
      | Inr d \<Rightarrow>
          let data = coalesce d res
          in Inr (coalesce (opt_prop data (js ''balance''))
                    (opt_prop (opt_prop data (js ''data'')) (js ''balance''))))"

text \<open>The branch \<open>resource === 'account' && operation === 'getBalance'\<close>.\<close>

definition account_getBalance :: "host \<Rightarrow> nat \<Rightarrow> (IDataObject \<times> jsval) io" where
  "account_getBalance h i =
     io_bind (doRequest h GET (js ''/api/v2/balance'') None i) (\<lambda>res.
     io_bind (io_lift (extract_balance res)) (\<lambda>balance.
     io_return ([(js ''balance'', balance)], res)))"

text \<open>
  The body of the \<open>try\<close> block for item \<open>i\<close>, up to the value pushed as \<open>json\<close>. The
  three \<open>if\<close> statements run one after the other on the variables \<open>out\<close> and \<open>res\<close>.
\<close>

definition try_block :: "host \<Rightarrow> jsval \<Rightarrow> jsval \<Rightarrow> jsval \<Rightarrow> nat \<Rightarrow> IDataObject io" where
  "try_block h resource operation includeRaw i =
     io_bind
       (if resource = JStr (js ''otp'') \<and> operation = JStr (js ''send'')
        then otp_send h i else io_return ([], JUndefined)) (\<lambda>(out, res).
     io_bind
       (if resource = JStr (js ''otp'') \<and> operation = JStr (js ''verify'')
        then otp_verify h i else io_return (out, res)) (\<lambda>(out, res).
     io_bind
       (if resource = JStr (js ''account'') \<and> operation = JStr (js ''getBalance'')
        then account_getBalance h i else io_return (out, res)) (\<lambda>(out, res).
     io_return (if truthy includeRaw \<and> truthy res then set_field out (js ''raw'') res else out))))"

text \<open>What leaves \<open>execute\<close> as an exception.\<close>

datatype thrown =
    NodeApiError js_error nat
      \<comment> \<open>a new \<open>NodeApiError\<close> made from the caught error, with its \<open>itemIndex\<close>\<close>
  | ExistingNodeApiError jsstring "nat option"
      \<comment> \<open>a \<open>NodeApiError\<close> that a host call had thrown, as it was thrown\<close>
  | Uncaught js_error
      \<comment> \<open>thrown outside the \<open>try\<close> block\<close>

text \<open>
  \<open>new NodeApiError(this.getNode(), error, { itemIndex: i })\<close>. The constructor belongs
  to the n8n-workflow library, outside this repository: given an error that is already an
  instance of \<open>NodeApiError\<close> it returns that error unchanged, and otherwise it builds a
  new error that carries the \<open>itemIndex\<close>. Of the errors of the try block only one thrown
  by a host call can be such an instance.
\<close>

fun new_NodeApiError :: "js_error \<Rightarrow> nat \<Rightarrow> thrown" where
  "new_NodeApiError (HostError (ApiError m idx)) i = ExistingNodeApiError m idx"
| "new_NodeApiError error i = NodeApiError error i"

text \<open>The record pushed by the \<open>catch\<close> block under continue-on-fail.\<close>

definition error_record :: "js_error \<Rightarrow> nat \<Rightarrow> INodeExecutionData" where
  "error_record error i =
     \<lparr> json = [(js ''error'', JStr (message error))], pairedItem = Some i \<rparr>"

function execute_loop ::
    "host \<Rightarrow> INodeExecutionData list \<Rightarrow> jsval \<Rightarrow> jsval \<Rightarrow> jsval \<Rightarrow> nat \<Rightarrow>
       INodeExecutionData list \<Rightarrow> event list \<Rightarrow> (thrown + INodeExecutionData list) \<times> event list" where
  "execute_loop h items resource operation includeRaw i returnData tr =
     (if i < length items then
        (case try_block h resource operation includeRaw i tr of
           (Inr out, tr') \<Rightarrow>
             execute_loop h items resource operation includeRaw (i + 1)
               (returnData @ [\<lparr> json = out, pairedItem = None \<rparr>]) tr'
         | (Inl error, tr') \<Rightarrow>
             if continueOnFail h
             then execute_loop h items resource operation includeRaw (i + 1)
                    (returnData @ [error_record error i]) tr'
             else (Inl (new_NodeApiError error i), tr'))
      else (Inr returnData, tr))"
  by pat_completeness auto
termination
  by (relation "measure (\<lambda>(h, items, resource, operation, includeRaw, i, returnData, tr).
        length items - i)") auto

definition execute :: "host \<Rightarrow> (thrown + INodeExecutionData list list) \<times> event list" where
  "execute h =
     (let items = getInputData h;
          returnData = []
      in case io_bind (call_getNodeParameter h ''resource'' 0 None) (\<lambda>resource.
              io_bind (call_getNodeParameter h ''operation'' 0 None) (\<lambda>operation.
              io_bind (call_getNodeParameter h ''includeRaw'' 0 (Some (JBool False))) (\<lambda>includeRaw.
              io_return (resource, operation, includeRaw)))) [] of
           (Inl e, tr) \<Rightarrow> (Inl (Uncaught e), tr)
         | (Inr (resource, operation, includeRaw), tr) \<Rightarrow>
             (case execute_loop h items resource operation includeRaw 0 returnData tr of
                (Inl e, tr') \<Rightarrow> (Inl e, tr')
              | (Inr returnData, tr') \<Rightarrow> (Inr [returnData], tr')))"

section \<open>The credential type\<close>

text \<open>\<open>AuthenticaApi.name\<close> and the headers of \<open>AuthenticaApi.authenticate\<close> (type \<open>generic\<close>).\<close>

definition AuthenticaApi_name :: string where
  "AuthenticaApi_name = ''authenticaApi''"

definition AuthenticaApi_authenticate :: "(string \<times> string) list" where
  "AuthenticaApi_authenticate =
     [(''X-Authorization'', ''={{$credentials.apiKey}}''),
      (''Accept'', ''application/json'')]"

text \<open>
  Modelled from the spec: the host's HTTP transport with authentication injection is an
  external collaborator and not part of this repository. For an authenticate block of
  type \<open>generic\<close> it sets every header of the block on the request; a header value
  \<open>={{$credentials.K}}\<close> stands for property \<open>K\<close> of the stored credentials, any other
  value for itself.
\<close>

definition resolve_value :: "(jsstring \<times> jsstring) list \<Rightarrow> string \<Rightarrow> jsstring option" where
  "resolve_value creds v =
     (let pre = ''={{$credentials.''; suf = ''}}'' in
      if length pre + length suf \<le> length v \<and> take (length pre) v = pre
           \<and> drop (length v - length suf) v = suf
      then map_of creds (js (take (length v - length pre - length suf) (drop (length pre) v)))
      else Some (js v))"

definition inject_authentication ::
    "(string \<times> string) list \<Rightarrow> (jsstring \<times> jsstring) list \<Rightarrow> IHttpRequestOptions
       \<Rightarrow> IHttpRequestOptions" where
  "inject_authentication auth creds options =
     options \<lparr> headers :=
       foldl (\<lambda>hs (k, v). case resolve_value creds v of
                             None \<Rightarrow> hs
                           | Some x \<Rightarrow> set_field hs (js k) x)
         (headers options) auth \<rparr>"

section \<open>Notions used in the statements\<close>

subsection \<open>Languages of regular expressions\<close>

text \<open>
  The strings a regular expression stands for: concatenation, powers, and the strings
  that may follow a given first code unit.
\<close>

definition cat :: "jsstring set \<Rightarrow> jsstring set \<Rightarrow> jsstring set" where
  "cat A B = {u @ v | u v. u \<in> A \<and> v \<in> B}"

fun npow :: "jsstring set \<Rightarrow> nat \<Rightarrow> jsstring set" where
  "npow A 0 = {[]}"
| "npow A (Suc k) = cat A (npow A k)"

fun lang :: "regex \<Rightarrow> jsstring set" where
  "lang Fail = {}"
| "lang Eps = {[]}"
| "lang (Atom it) = {[c] | c. item_matches it c}"
| "lang (Bracket neg its) = {[c] | c. bracket_matches neg its c}"
| "lang (Seq r s) = cat (lang r) (lang s)"
| "lang (Alt r s) = lang r \<union> lang s"
| "lang (Plus r) = (\<Union>k. npow (lang r) (Suc k))"
| "lang (Repeat m n r) = (\<Union>k\<in>{m..n}. npow (lang r) k)"

definition after :: "code_unit \<Rightarrow> jsstring set \<Rightarrow> jsstring set" where
  "after c A = {w. c # w \<in> A}"

text \<open>
  The two shapes in words: a \<open>+\<close>, a digit 1-9, then 6 to 14 further digits; and
  \<open>a@b.c\<close> with \<open>a\<close>, \<open>b\<close>, \<open>c\<close> non-empty and free of whitespace and \<open>@\<close>.
\<close>

definition e164_form :: "jsstring \<Rightarrow> bool" where
  "e164_form t =
     (\<exists>d ds. t = of_char CHR ''+'' # d # ds
        \<and> of_char CHR ''1'' \<le> d \<and> d \<le> of_char CHR ''9''
        \<and> 6 \<le> length ds \<and> length ds \<le> 14 \<and> list_all is_digit ds)"

definition addr_char :: "code_unit \<Rightarrow> bool" where
  "addr_char c = (\<not> is_space c \<and> c \<noteq> of_char CHR ''@'')"

definition email_form :: "jsstring \<Rightarrow> bool" where
  "email_form t =
     (\<exists>a b c. t = a @ [of_char CHR ''@''] @ b @ [of_char CHR ''.''] @ c
        \<and> a \<noteq> [] \<and> b \<noteq> [] \<and> c \<noteq> []
        \<and> list_all addr_char a \<and> list_all addr_char b \<and> list_all addr_char c)"

subsection \<open>The record of host calls\<close>

text \<open>
  A string value written as a literal; the transport calls among the recorded host
  calls; the parameters read inside the loop; the reads made before the loop.
\<close>

abbreviation str :: "string \<Rightarrow> jsval" where "str s \<equiv> JStr (js s)"

definition is_http :: "event \<Rightarrow> bool" where
  "is_http ev = (case ev of HttpRequest cred options r \<Rightarrow> True | _ \<Rightarrow> False)"

definition http_calls :: "event list \<Rightarrow> event list" where
  "http_calls tr = filter is_http tr"

definition per_item_parameters :: "string list" where
  "per_item_parameters =
     [''otpMethod'', ''phone'', ''email'', ''verifyWith'', ''verifyPhone'', ''verifyEmail'', ''otp'']"

definition initial_trace :: "event list" where
  "initial_trace = [GetNodeParameter ''resource'' 0, GetNodeParameter ''operation'' 0,
                    GetNodeParameter ''includeRaw'' 0]"

text \<open>
  What a host call made while item \<open>i\<close> is processed may be: the read of a per-item
  parameter at index \<open>i\<close>, or a credential lookup or a transport call under the name
  \<open>authenticaApi\<close>.
\<close>

definition item_event_ok :: "nat \<Rightarrow> event \<Rightarrow> bool" where
  "item_event_ok i ev =
     (case ev of
        GetNodeParameter name k \<Rightarrow> k = i \<and> name \<in> set per_item_parameters
      | GetCredentials cred \<Rightarrow> cred = ''authenticaApi''
      | HttpRequest cred options r \<Rightarrow> cred = ''authenticaApi'')"

subsection \<open>Items of a run\<close>

text \<open>
  The last statement of the try block, on the pair of \<open>out\<close> and \<open>res\<close> that a branch
  leaves.
\<close>

definition attach_raw :: "jsval \<Rightarrow> IDataObject \<times> jsval \<Rightarrow> IDataObject" where
  "attach_raw includeRaw p =
     (case p of (out, res) \<Rightarrow>
        if truthy includeRaw \<and> truthy res then set_field out (js ''raw'') res else out)"

text \<open>
  The record of host calls when a run that started its loop with \<open>tr0\<close> reaches item
  \<open>k\<close>, what the try block yields for item \<open>k\<close> there, and the record pushed for an
  item with a given outcome.
\<close>

fun trace_at :: "host \<Rightarrow> jsval \<Rightarrow> jsval \<Rightarrow> jsval \<Rightarrow> event list \<Rightarrow> nat \<Rightarrow> event list" where
  "trace_at h resource operation includeRaw tr0 0 = tr0"
| "trace_at h resource operation includeRaw tr0 (Suc k) =
     snd (try_block h resource operation includeRaw k (trace_at h resource operation includeRaw tr0 k))"

definition outcome_at ::
    "host \<Rightarrow> jsval \<Rightarrow> jsval \<Rightarrow> jsval \<Rightarrow> event list \<Rightarrow> nat \<Rightarrow> js_error + IDataObject" where
  "outcome_at h resource operation includeRaw tr0 k =
     fst (try_block h resource operation includeRaw k (trace_at h resource operation includeRaw tr0 k))"

fun item_record :: "nat \<Rightarrow> js_error + IDataObject \<Rightarrow> INodeExecutionData" where
  "item_record k (Inr out) = \<lparr> json = out, pairedItem = None \<rparr>"
| "item_record k (Inl error) =
     \<lparr> json = [(js ''error'', JStr (message error))], pairedItem = Some k \<rparr>"


text \<open>
  Whether an outcome is the node's own validation error.
\<close>

definition is_validation_error :: "js_error + 'a \<Rightarrow> bool" where
  "is_validation_error r = (case r of Inl (NodeOperationError msg) \<Rightarrow> True | _ \<Rightarrow> False)"

subsection \<open>Requests and the balance\<close>

text \<open>
  The request descriptor for a base URL, a method, a path and an optional body.
\<close>

definition request_options ::
    "jsstring \<Rightarrow> http_method \<Rightarrow> jsstring \<Rightarrow> IDataObject option \<Rightarrow> IHttpRequestOptions" where
  "request_options baseUrl m path b =
     \<lparr> opt_method = m, url = baseUrl @ path,
       headers = [(js ''Content-Type'', js ''application/json''),
                  (js ''Accept'', js ''application/json'')],
       opt_json = True, body = b \<rparr>"

text \<open>
  The fallback chain for the balance in words: a value is set when it is neither
  \<open>undefined\<close> nor \<open>null\<close>; a member of a value is the property of an object, and
  \<open>undefined\<close> when the value is no object or has no such property.
\<close>

definition is_set :: "jsval \<Rightarrow> bool" where
  "is_set v = (v \<noteq> JUndefined \<and> v \<noteq> JNull)"

definition member :: "jsval \<Rightarrow> string \<Rightarrow> jsval" where
  "member v k =
     (case v of
        JObj kvs \<Rightarrow> (case map_of kvs (js k) of Some x \<Rightarrow> x | None \<Rightarrow> JUndefined)
      | _ \<Rightarrow> JUndefined)"

definition balance_chain :: "jsval \<Rightarrow> jsval" where
  "balance_chain res =
     (let data = (if is_set (member res ''data'') then member res ''data'' else res)
      in if is_set (member data ''balance'') then member data ''balance''
         else member (member data ''data'') ''balance'')"

subsection \<open>Properties of computations\<close>

text \<open>
  \<open>yields Q m\<close>: from any record of host calls, \<open>m\<close> only appends calls, and its
  result and the appended calls satisfy \<open>Q\<close>. The other notions are instances of \<open>Q\<close>:
  only per-item parameter reads (\<open>quiet\<close>); parameter reads followed by at most one
  credential lookup and transport call, and none of these after a validation error
  (\<open>item_events\<close>); a property of successful results only (\<open>on_success\<close>); a result built
  from the answer of the last call, which is a transport call (\<open>answered\<close>).
\<close>

definition yields :: "(js_error + 'a \<Rightarrow> event list \<Rightarrow> bool) \<Rightarrow> 'a io \<Rightarrow> bool" where
  "yields Q m = (\<forall>tr. \<exists>evs. snd (m tr) = tr @ evs \<and> Q (fst (m tr)) evs)"

definition is_param_at :: "nat \<Rightarrow> event \<Rightarrow> bool" where
  "is_param_at i ev =
     (case ev of GetNodeParameter name k \<Rightarrow> k = i \<and> name \<in> set per_item_parameters
               | _ \<Rightarrow> False)"

definition quiet :: "nat \<Rightarrow> js_error + 'a \<Rightarrow> event list \<Rightarrow> bool" where
  "quiet i r evs = list_all (is_param_at i) evs"

definition request_events :: "event list \<Rightarrow> bool" where
  "request_events rs =
     (rs = [GetCredentials ''authenticaApi'']
      \<or> (\<exists>options x. rs = [GetCredentials ''authenticaApi'',
                             HttpRequest ''authenticaApi'' options x]))"

definition item_events :: "nat \<Rightarrow> js_error + 'a \<Rightarrow> event list \<Rightarrow> bool" where
  "item_events i r evs =
     (\<exists>ps rs. evs = ps @ rs \<and> list_all (is_param_at i) ps
        \<and> (rs = [] \<or> (request_events rs \<and> \<not> is_validation_error r)))"

definition on_success :: "('a \<Rightarrow> event list \<Rightarrow> bool) \<Rightarrow> js_error + 'a \<Rightarrow> event list \<Rightarrow> bool" where
  "on_success S r evs = (\<forall>y. r = Inr y \<longrightarrow> S y evs)"

definition answered :: "(jsval \<Rightarrow> 'a) \<Rightarrow> 'a \<Rightarrow> event list \<Rightarrow> bool" where
  "answered g y evs =
     (\<exists>res cred options. y = g res \<and> evs \<noteq> [] \<and> last evs = HttpRequest cred options (Inr res))"

subsection \<open>Example hosts\<close>

text \<open>
  A host with two input items. The phone number and the email address of item 0 are
  valid, those of item 1 are not; the credential's base URL is empty; the transport
  answers every request, a balance request with a balance that depends on the number of
  earlier requests. \<open>failing_host\<close> is in account/getBalance mode without
  continue-on-fail, and its transport fails with a \<open>NodeApiError\<close> that has no
  \<open>itemIndex\<close>.
\<close>

definition demo_parameter ::
    "string \<Rightarrow> string \<Rightarrow> string \<Rightarrow> nat \<Rightarrow> jsval option \<Rightarrow> host_exception + jsval" where
  "demo_parameter resource operation name i fallback =
     (if name = ''resource'' then Inr (str resource)
      else if name = ''operation'' then Inr (str operation)
      else if name = ''includeRaw'' then Inr (JBool True)
      else if name = ''otpMethod'' then Inr (str ''sms'')
      else if name = ''phone'' then Inr (str (if i = 0 then ''+966512345678'' else ''0512345678''))
      else if name = ''verifyWith'' then Inr (str ''email'')
      else if name = ''verifyEmail''
        then Inr (str (if i = 0 then ''user@example.com'' else ''user.example.com''))
      else if name = ''otp'' then Inr (str ''123456'')
      else (case fallback of Some v \<Rightarrow> Inr v | None \<Rightarrow> Inl (OtherError (js ''Could not get parameter''))))"

definition demo_transport :: "event list \<Rightarrow> string \<Rightarrow> IHttpRequestOptions \<Rightarrow> host_exception + jsval" where
  "demo_transport tr cred options =
     (if opt_method options = GET
      then Inr (JObj [(js ''data'',
             JObj [(js ''balance'', JNum (100 - int (length (http_calls tr))))])])
      else Inr (JObj [(js ''success'', JBool True)]))"

definition demo_host :: "string \<Rightarrow> string \<Rightarrow> bool \<Rightarrow> host" where
  "demo_host resource operation cof =
     \<lparr> getInputData = [\<lparr> json = [], pairedItem = None \<rparr>, \<lparr> json = [], pairedItem = None \<rparr>],
       getNodeParameter = demo_parameter resource operation,
       getCredentials = (\<lambda>name. if name = ''authenticaApi''
          then Inr (Some [(js ''apiKey'', js ''key-1''), (js ''baseUrl'', [])])
          else Inl (OtherError (js ''Node does not have any credentials set''))),
       httpRequestWithAuthentication = demo_transport,
       continueOnFail = cof \<rparr>"

definition failing_host :: host where
  "failing_host =
     (demo_host ''account'' ''getBalance'' False)
       \<lparr> httpRequestWithAuthentication := (\<lambda>tr cred options. Inl (ApiError (js ''Request failed'') None)) \<rparr>"

section \<open>Matcher correctness\<close>

lemma Nil_in_cat: "[] \<in> cat A B \<longleftrightarrow> [] \<in> A \<and> [] \<in> B"
  by (auto simp: cat_def)

lemma Nil_in_npow: "[] \<in> npow A k \<longleftrightarrow> k = 0 \<or> [] \<in> A"
  by (induction k) (auto simp: Nil_in_cat)

lemma nullable_lang: "nullable r \<longleftrightarrow> [] \<in> lang r"
proof (induction r)
  case (Repeat m n r)
  then show ?case by (auto simp: Nil_in_npow)
qed (auto simp: Nil_in_cat Nil_in_npow)

lemma after_cat:
  "after c (cat A B) = cat (after c A) B \<union> (if [] \<in> A then after c B else {})"
proof -
  have "w \<in> after c (cat A B) \<longleftrightarrow>
        w \<in> cat (after c A) B \<union> (if [] \<in> A then after c B else {})" for w
  proof
    assume "w \<in> after c (cat A B)"
    then obtain u v where uv: "c # w = u @ v" "u \<in> A" "v \<in> B"
      by (auto simp: after_def cat_def)
    show "w \<in> cat (after c A) B \<union> (if [] \<in> A then after c B else {})"
    proof (cases u)
      case Nil
      with uv show ?thesis by (auto simp: after_def)
    next
      case (Cons a u')
      with uv have "w = u' @ v" "c # u' \<in> A" by auto
      with uv(3) show ?thesis by (auto simp: after_def cat_def)
    qed
  next
    assume "w \<in> cat (after c A) B \<union> (if [] \<in> A then after c B else {})"
    then consider "w \<in> cat (after c A) B" | "[] \<in> A" "w \<in> after c B"
      by (auto split: if_splits)
    then show "w \<in> after c (cat A B)"
    proof cases
      case 1
      then obtain u v where "w = u @ v" "c # u \<in> A" "v \<in> B"
        by (auto simp: after_def cat_def)
      then have "c # w = (c # u) @ v" by simp
      with \<open>c # u \<in> A\<close> \<open>v \<in> B\<close> show ?thesis
        unfolding after_def cat_def by blast
    next
      case 2
      then have "c # w = [] @ (c # w)" "c # w \<in> B" by (auto simp: after_def)
      with 2(1) show ?thesis unfolding after_def cat_def by blast
    qed
  qed
  then show ?thesis by blast
qed

lemma cat_mono_right: "B \<subseteq> C \<Longrightarrow> cat A B \<subseteq> cat A C"
  by (auto simp: cat_def)

lemma npow_grows: "[] \<in> A \<Longrightarrow> npow A k \<subseteq> npow A (Suc k)"
proof (induction k)
  case 0
  then show ?case by (auto simp: cat_def)
next
  case (Suc k)
  then show ?case using cat_mono_right [where B = "npow A k" and C = "npow A (Suc k)" and A = A] by simp
qed

lemma cat_unit: "cat A {[]} = A"
  by (auto simp: cat_def)

lemma after_npow: "after c (npow A (Suc k)) = cat (after c A) (npow A k)"
proof (induction k)
  case 0
  show ?case by (simp add: cat_unit)
next
  case (Suc k)
  have "after c (npow A (Suc (Suc k))) =
        cat (after c A) (npow A (Suc k)) \<union> (if [] \<in> A then after c (npow A (Suc k)) else {})"
    by (simp add: after_cat)
  also have "\<dots> = cat (after c A) (npow A (Suc k))"
  proof (cases "[] \<in> A")
    case True
    then have "cat (after c A) (npow A k) \<subseteq> cat (after c A) (npow A (Suc k))"
      by (intro cat_mono_right npow_grows)
    with True Suc show ?thesis by auto
  next
    case False
    then show ?thesis by simp
  qed
  finally show ?case .
qed

lemma after_Union: "after c (\<Union>k\<in>K. F k) = (\<Union>k\<in>K. after c (F k))"
  by (auto simp: after_def)

lemma cat_Union: "cat A (\<Union>k\<in>K. F k) = (\<Union>k\<in>K. cat A (F k))"
  by (auto simp: cat_def)

lemma after_unit: "after c {[]} = {}" "after c {} = {}"
  by (auto simp: after_def)

lemma after_single: "after c {[x] | x. P x} = (if P c then {[]} else {})"
  by (auto simp: after_def)

lemma after_Un: "after c (A \<union> B) = after c A \<union> after c B"
  by (auto simp: after_def)

lemma after_repeat:
  "after c (\<Union>k\<in>{m..n}. npow A k) =
     (if n = 0 then {} else cat (after c A) (\<Union>k\<in>{m - 1..n - 1}. npow A k))"
proof (cases "n = 0")
  case True
  have "w \<notin> after c (\<Union>k\<in>{m..n}. npow A k)" for w
  proof
    assume "w \<in> after c (\<Union>k\<in>{m..n}. npow A k)"
    then obtain k where "k \<le> n" "c # w \<in> npow A k" by (auto simp: after_def)
    with True have "c # w \<in> npow A 0" by simp
    then show False by simp
  qed
  with True show ?thesis by auto
next
  case False
  have "after c (\<Union>k\<in>{m..n}. npow A k) = (\<Union>k\<in>{m..n}. after c (npow A k))"
    by (rule after_Union)
  also have "\<dots> = (\<Union>j\<in>{m - 1..n - 1}. cat (after c A) (npow A j))"
  proof (intro set_eqI iffI)
    fix w assume "w \<in> (\<Union>k\<in>{m..n}. after c (npow A k))"
    then obtain k where k: "m \<le> k" "k \<le> n" "w \<in> after c (npow A k)" by auto
    have "k \<noteq> 0"
    proof
      assume "k = 0"
      with k(3) show False by (simp add: after_def)
    qed
    then obtain j where kj: "k = Suc j" by (cases k) simp_all
    from k(3) have "w \<in> cat (after c A) (npow A j)"
      unfolding kj after_npow .
    moreover from k(1,2) kj have "m - 1 \<le> j" "j \<le> n - 1" by arith+
    ultimately show "w \<in> (\<Union>j\<in>{m - 1..n - 1}. cat (after c A) (npow A j))" by auto
  next
    fix w assume "w \<in> (\<Union>j\<in>{m - 1..n - 1}. cat (after c A) (npow A j))"
    then obtain j where j: "m - 1 \<le> j" "j \<le> n - 1" "w \<in> cat (after c A) (npow A j)" by auto
    from j(3) have "w \<in> after c (npow A (Suc j))"
      unfolding after_npow .
    moreover from j(1,2) False have "m \<le> Suc j" "Suc j \<le> n" by arith+
    ultimately show "w \<in> (\<Union>k\<in>{m..n}. after c (npow A k))"
      by (intro UN_I [where a = "Suc j"]) simp_all
  qed
  also have "\<dots> = cat (after c A) (\<Union>k\<in>{m - 1..n - 1}. npow A k)"
    by (simp only: cat_Union)
  finally show ?thesis using False by simp
qed

lemma after_plus:
  "after c (\<Union>k. npow A (Suc k)) = cat (after c A) ({[]} \<union> (\<Union>k. npow A (Suc k)))"
proof -
  have "{[]} \<union> (\<Union>k. npow A (Suc k)) = (\<Union>k. npow A k)"
  proof (intro set_eqI iffI)
    fix w assume "w \<in> {[]} \<union> (\<Union>k. npow A (Suc k))"
    then consider "w \<in> npow A 0" | k where "w \<in> npow A (Suc k)" by auto
    then show "w \<in> (\<Union>k. npow A k)" by cases blast+
  next
    fix w assume "w \<in> (\<Union>k. npow A k)"
    then obtain k where "w \<in> npow A k" by auto
    then show "w \<in> {[]} \<union> (\<Union>k. npow A (Suc k))" by (cases k) auto
  qed
  moreover have "after c (\<Union>k. npow A (Suc k)) = (\<Union>k. cat (after c A) (npow A k))"
    using after_Union [where c = c and K = UNIV and F = "\<lambda>k. npow A (Suc k)"]
    by (simp only: after_npow)
  moreover have "cat (after c A) (\<Union>k. npow A k) = (\<Union>k. cat (after c A) (npow A k))"
    using cat_Union [where A = "after c A" and K = UNIV and F = "npow A"] by simp
  ultimately show ?thesis by (simp only:)
qed

lemma lang_deriv: "lang (deriv c r) = after c (lang r)"
proof (induction r arbitrary: c)
  case (Seq r s)
  then show ?case by (simp add: after_cat nullable_lang)
next
  case (Plus r)
  then show ?case using after_plus [where c = c and A = "lang r"] by simp
next
  case (Repeat m n r)
  then show ?case using after_repeat [where c = c and m = m and n = n and A = "lang r"] by simp
qed (simp_all add: after_unit after_single after_Un)

lemma matches_lang: "matches r s \<longleftrightarrow> s \<in> lang r"
  by (induction s arbitrary: r) (simp_all add: nullable_lang lang_deriv after_def)


lemma cat_class: "cat {[c] | c. P c} B = {c # v | c v. P c \<and> v \<in> B}"
proof (intro set_eqI iffI)
  fix w assume "w \<in> cat {[c] | c. P c} B"
  then show "w \<in> {c # v | c v. P c \<and> v \<in> B}" by (auto simp: cat_def)
next
  fix w assume "w \<in> {c # v | c v. P c \<and> v \<in> B}"
  then obtain c v where "w = [c] @ v" "P c" "v \<in> B" by auto
  then show "w \<in> cat {[c] | c. P c} B" unfolding cat_def by blast
qed

lemma npow_class:
  "npow {[c] | c. P c} k = {w. length w = k \<and> (\<forall>c\<in>set w. P c)}"
proof (induction k)
  case 0
  show ?case by auto
next
  case (Suc k)
  have "w \<in> {c # v | c v. P c \<and> v \<in> {w. length w = k \<and> (\<forall>c\<in>set w. P c)}} \<longleftrightarrow>
        length w = Suc k \<and> (\<forall>c\<in>set w. P c)" for w
    by (cases w) auto
  with Suc show ?case by (simp only: npow.simps cat_class) blast
qed

lemma plus_class:
  "(\<Union>k. npow {[c] | c. P c} (Suc k)) = {w. w \<noteq> [] \<and> (\<forall>c\<in>set w. P c)}"
proof -
  have "w \<in> (\<Union>k. npow {[c] | c. P c} (Suc k)) \<longleftrightarrow> w \<noteq> [] \<and> (\<forall>c\<in>set w. P c)" for w
  proof -
    have "w \<in> (\<Union>k. npow {[c] | c. P c} (Suc k)) \<longleftrightarrow>
          (\<exists>k. length w = Suc k \<and> (\<forall>c\<in>set w. P c))"
      by (simp only: npow_class) auto
    also have "\<dots> \<longleftrightarrow> w \<noteq> [] \<and> (\<forall>c\<in>set w. P c)"
      by (cases w) auto
    finally show ?thesis .
  qed
  then show ?thesis by blast
qed

lemma repeat_class:
  "(\<Union>k\<in>{m..n}. npow {[c] | c. P c} k) = {w. m \<le> length w \<and> length w \<le> n \<and> (\<forall>c\<in>set w. P c)}"
  by (simp only: npow_class) auto

lemma cat_iff: "w \<in> cat A B \<longleftrightarrow> (\<exists>u v. w = u @ v \<and> u \<in> A \<and> v \<in> B)"
  by (auto simp: cat_def)

lemma e164_lang: "t \<in> lang e164_pattern \<longleftrightarrow> e164_form t"
proof -
  have A: "lang (Repeat 6 14 (Atom ClassD)) = {w. 6 \<le> length w \<and> length w \<le> 14 \<and> (\<forall>c\<in>set w. is_digit c)}"
    using repeat_class [where P = is_digit and m = 6 and n = 14] by simp
  have B: "lang (Bracket False [Range a b]) = {[d] | d. a \<le> d \<and> d \<le> b}" for a b
    by (simp add: bracket_matches_def)
  have C: "lang (Atom (Single a)) = {[c] | c. c = a}" for a
    by simp
  show ?thesis
    unfolding e164_pattern_def lang.simps(5) A B C cat_class e164_form_def list_all_iff
    by auto
qed

lemma catI: "u \<in> A \<Longrightarrow> v \<in> B \<Longrightarrow> u @ v \<in> cat A B"
  by (auto simp: cat_def)

lemma catE: "w \<in> cat A B \<Longrightarrow> (\<And>u v. w = u @ v \<Longrightarrow> u \<in> A \<Longrightarrow> v \<in> B \<Longrightarrow> R) \<Longrightarrow> R"
  by (auto simp: cat_def)

lemma email_lang: "t \<in> lang email_pattern \<longleftrightarrow> email_form t"
proof -
  define S where "S = {w. w \<noteq> [] \<and> (\<forall>c\<in>set w. addr_char c)}"
  have A: "lang (Plus (Bracket True [ClassS, Single (of_char CHR ''@'')])) = S"
    using plus_class [where P = "\<lambda>c. \<not> is_space c \<and> c \<noteq> of_char CHR ''@''"]
    by (simp add: bracket_matches_def S_def addr_char_def del: npow.simps)
  have C: "lang (Atom (Single a)) = {[a]}" for a
    by auto
  have L: "lang email_pattern =
      cat S (cat {[of_char CHR ''@'']} (cat S (cat {[of_char CHR ''.'']} S)))"
    unfolding email_pattern_def lang.simps(5) A C ..
  show ?thesis
  proof
    assume "t \<in> lang email_pattern"
    then obtain a v1 where 1: "t = a @ v1" "a \<in> S"
        "v1 \<in> cat {[of_char CHR ''@'']} (cat S (cat {[of_char CHR ''.'']} S))"
      unfolding L by (rule catE)
    from 1(3) obtain x v2 where 2: "v1 = x @ v2" "x \<in> {[of_char CHR ''@'']}"
        "v2 \<in> cat S (cat {[of_char CHR ''.'']} S)"
      by (rule catE)
    from 2(3) obtain b v3 where 3: "v2 = b @ v3" "b \<in> S" "v3 \<in> cat {[of_char CHR ''.'']} S"
      by (rule catE)
    from 3(3) obtain y c where 4: "v3 = y @ c" "y \<in> {[of_char CHR ''.'']}" "c \<in> S"
      by (rule catE)
    have "t = a @ [of_char CHR ''@''] @ b @ [of_char CHR ''.''] @ c"
      using 1(1) 2(1,2) 3(1) 4(1,2) by simp
    moreover have "a \<noteq> [] \<and> b \<noteq> [] \<and> c \<noteq> [] \<and> (\<forall>x\<in>set a \<union> set b \<union> set c. addr_char x)"
      using 1(2) 3(2) 4(3) by (auto simp: S_def)
    ultimately show "email_form t" unfolding email_form_def list_all_iff by blast
  next
    assume "email_form t"
    then obtain a b c where t: "t = a @ [of_char CHR ''@''] @ b @ [of_char CHR ''.''] @ c"
      and ne: "a \<noteq> []" "b \<noteq> []" "c \<noteq> []"
      and ok: "\<forall>x\<in>set a \<union> set b \<union> set c. addr_char x"
      unfolding email_form_def list_all_iff by blast
    from ne ok have "a \<in> S" "b \<in> S" "c \<in> S" by (auto simp: S_def)
    then show "t \<in> lang email_pattern"
      unfolding L t by (intro catI) simp_all
  qed
qed

lemma trim_pad:
  assumes "\<forall>x\<in>set l. is_space x" "\<forall>x\<in>set r. is_space x"
  shows "trim (l @ s @ r) = trim s"
proof -
  have L: "dropWhile is_space (l @ s @ r) = dropWhile is_space (s @ r)"
    using assms(1) by (simp add: dropWhile_append2)
  show ?thesis
  proof (cases "\<forall>x\<in>set s. is_space x")
    case True
    with assms(2) have "\<forall>x\<in>set (s @ r). is_space x" by auto
    then have "dropWhile is_space (s @ r) = []"
      unfolding dropWhile_eq_Nil_conv .
    moreover from True have "dropWhile is_space s = []"
      unfolding dropWhile_eq_Nil_conv .
    ultimately show ?thesis unfolding trim_def L by (simp only:)
  next
    case False
    then have "dropWhile is_space (s @ r) = dropWhile is_space s @ r"
      by (auto simp: dropWhile_append1)
    moreover have "dropWhile is_space (rev r @ ys) = dropWhile is_space ys" for ys
      by (rule dropWhile_append2) (use assms(2) in simp)
    ultimately show ?thesis using L by (simp add: trim_def)
  qed
qed

lemma isE164_iff: "isE164 v = Inr True \<longleftrightarrow> (\<exists>s. v = JStr s \<and> e164_form (trim s))"
proof (cases v)
  case (JStr s)
  then show ?thesis by (simp add: isE164_def matches_lang e164_lang)
next
  case JUndefined
  have "\<not> e164_form []" by (simp add: e164_form_def)
  with JUndefined show ?thesis by (simp add: isE164_def matches_lang e164_lang trim_def)
next
  case JNull
  have "\<not> e164_form []" by (simp add: e164_form_def)
  with JNull show ?thesis by (simp add: isE164_def matches_lang e164_lang trim_def)
qed (simp_all add: isE164_def)

lemma isEmail_iff: "isEmail v = Inr True \<longleftrightarrow> (\<exists>s. v = JStr s \<and> email_form (trim s))"
proof (cases v)
  case (JStr s)
  then show ?thesis by (simp add: isEmail_def matches_lang email_lang)
next
  case JUndefined
  have "\<not> email_form []" by (simp add: email_form_def)
  with JUndefined show ?thesis by (simp add: isEmail_def matches_lang email_lang trim_def)
next
  case JNull
  have "\<not> email_form []" by (simp add: email_form_def)
  with JNull show ?thesis by (simp add: isEmail_def matches_lang email_lang trim_def)
qed (simp_all add: isEmail_def)

lemma isE164_example: "isE164 (JStr (js ''+966512345678'')) = Inr True"
  by code_simp

lemma isEmail_example: "isEmail (JStr (js ''user@example.com'')) = Inr True"
  by code_simp

section \<open>Computations and their host calls\<close>

subsection \<open>Running computations\<close>

lemmas io_defs = io_return_def io_throw_def io_lift_def io_bind_def host_result_def
  call_getNodeParameter_def call_getCredentials_def call_httpRequestWithAuthentication_def

lemma io_bind_return: "io_bind (io_return x) f = f x"
  by (simp add: io_bind_def io_return_def)

lemma io_bind_run:
  "io_bind m f tr = (case fst (m tr) of Inl e \<Rightarrow> (Inl e, snd (m tr)) | Inr x \<Rightarrow> f x (snd (m tr)))"
  by (cases "m tr") (auto simp: io_bind_def split: sum.splits)

lemma yields_bind:
  assumes m: "yields P m"
    and f: "\<And>x. yields (Q x) (f x)"
    and err: "\<And>e a. P (Inl e) a \<Longrightarrow> R (Inl e) a"
    and ok: "\<And>x a r b. P (Inr x) a \<Longrightarrow> Q x r b \<Longrightarrow> R r (a @ b)"
  shows "yields R (io_bind m f)"
  unfolding yields_def
proof
  fix tr
  from m obtain a where a: "snd (m tr) = tr @ a" "P (fst (m tr)) a"
    unfolding yields_def by blast
  show "\<exists>evs. snd (io_bind m f tr) = tr @ evs \<and> R (fst (io_bind m f tr)) evs"
  proof (cases "fst (m tr)")
    case (Inl e)
    with a err [of e a] show ?thesis by (auto simp: io_bind_run)
  next
    case (Inr x)
    from f [of x] obtain b where b: "snd (f x (tr @ a)) = (tr @ a) @ b" "Q x (fst (f x (tr @ a))) b"
      unfolding yields_def by blast
    with Inr a ok [of x a "fst (f x (tr @ a))" b] show ?thesis
      by (auto simp: io_bind_run)
  qed
qed

lemma yields_quiet_bind:
  assumes "yields (quiet i) m" "\<And>x. yields (item_events i) (f x)"
  shows "yields (item_events i) (io_bind m f)"
proof (rule yields_bind [OF assms(1), where Q = "\<lambda>x. item_events i"])
  show "\<And>x. yields (item_events i) (f x)" by (rule assms(2))
next
  fix e :: js_error and a
  assume "quiet i (Inl e :: js_error + 'a) a"
  then show "item_events i (Inl e :: js_error + 'b) a"
    unfolding quiet_def item_events_def by (intro exI [of _ a] exI [of _ "[]"]) simp
next
  fix x :: 'a and a and r :: "js_error + 'b" and b
  assume "quiet i (Inr x :: js_error + 'a) a" "item_events i r b"
  then obtain ps rs where "b = ps @ rs" "list_all (is_param_at i) (a @ ps)"
      "rs = [] \<or> (request_events rs \<and> \<not> is_validation_error r)"
    unfolding quiet_def item_events_def by auto
  then show "item_events i r (a @ b)"
    unfolding item_events_def by (intro exI [of _ "a @ ps"] exI [of _ rs]) simp
qed

lemma yields_quiet_quiet:
  assumes "yields (quiet i) m" "\<And>x. yields (quiet i) (f x)"
  shows "yields (quiet i) (io_bind m f)"
  by (rule yields_bind [OF assms(1), where Q = "\<lambda>x. quiet i"])
     (use assms(2) in \<open>auto simp: quiet_def\<close>)

lemma yields_param:
  "name \<in> set per_item_parameters \<Longrightarrow> yields (quiet i) (call_getNodeParameter h name i fb)"
  by (simp add: yields_def quiet_def call_getNodeParameter_def is_param_at_def)

lemma yields_silent:
  "yields (quiet i) (io_return x)" "yields (quiet i) (io_throw e)" "yields (quiet i) (io_lift r)"
  by (simp_all add: yields_def quiet_def io_return_def io_throw_def io_lift_def)

lemma yields_if:
  "(c \<Longrightarrow> yields Q m) \<Longrightarrow> (\<not> c \<Longrightarrow> yields Q n) \<Longrightarrow> yields Q (if c then m else n)"
  by simp

lemma doRequest_run:
  "doRequest h m path b i tr =
     (case getCredentials h ''authenticaApi'' of
        Inl msg \<Rightarrow> (Inl (HostError msg), tr @ [GetCredentials ''authenticaApi''])
      | Inr creds \<Rightarrow>
          (let options = \<lparr> opt_method = m, url = base_url creds @ path,
                 headers = [(js ''Content-Type'', js ''application/json''),
                            (js ''Accept'', js ''application/json'')],
                 opt_json = True, body = (if m \<noteq> GET then b else None) \<rparr>;
               r = httpRequestWithAuthentication h (tr @ [GetCredentials ''authenticaApi'']) ''authenticaApi'' options
           in (host_result r, tr @ [GetCredentials ''authenticaApi'', HttpRequest ''authenticaApi'' options r])))"
  by (cases b) (auto simp: doRequest_def io_defs Let_def split: sum.splits)

lemma yields_doRequest:
  assumes "\<And>res tr. snd (k res tr) = tr \<and> \<not> is_validation_error (fst (k res tr))"
  shows "yields (item_events i) (io_bind (doRequest h m path b j) k)"
  unfolding yields_def
proof
  fix tr
  let ?c = "GetCredentials ''authenticaApi''"
  show "\<exists>evs. snd (io_bind (doRequest h m path b j) k tr) = tr @ evs
          \<and> item_events i (fst (io_bind (doRequest h m path b j) k tr)) evs"
  proof (cases "getCredentials h ''authenticaApi''")
    case (Inl msg)
    then have "io_bind (doRequest h m path b j) k tr = (Inl (HostError msg), tr @ [?c])"
      by (simp add: io_bind_run doRequest_run)
    moreover have "item_events i (Inl (HostError msg) :: js_error + 'a) [?c]"
      unfolding item_events_def
      by (intro exI [of _ "[]"] exI [of _ "[?c]"]) (simp add: request_events_def is_validation_error_def)
    ultimately show ?thesis by simp
  next
    case (Inr creds)
    define options where "options = \<lparr> opt_method = m, url = base_url creds @ path,
                 headers = [(js ''Content-Type'', js ''application/json''),
                            (js ''Accept'', js ''application/json'')],
                 opt_json = True, body = (if m \<noteq> GET then b else None) \<rparr>"
    define r where "r = httpRequestWithAuthentication h (tr @ [?c]) ''authenticaApi'' options"
    have run: "doRequest h m path b j tr = (host_result r, tr @ [?c, HttpRequest ''authenticaApi'' options r])"
      using Inr by (simp add: doRequest_run Let_def options_def r_def)
    have ev: "request_events [?c, HttpRequest ''authenticaApi'' options r]"
      by (simp add: request_events_def)
    show ?thesis
    proof (cases r)
      case (Inl msg)
      with run have "io_bind (doRequest h m path b j) k tr =
          (Inl (HostError msg), tr @ [?c, HttpRequest ''authenticaApi'' options r])"
        by (simp add: io_bind_run host_result_def)
      moreover have "item_events i (Inl (HostError msg) :: js_error + 'a)
          [?c, HttpRequest ''authenticaApi'' options r]"
        unfolding item_events_def
        by (intro exI [of _ "[]"] exI [of _ "[?c, HttpRequest ''authenticaApi'' options r]"])
           (simp add: ev is_validation_error_def)
      ultimately show ?thesis by simp
    next
      case (Inr res)
      with run have "io_bind (doRequest h m path b j) k tr =
          k res (tr @ [?c, HttpRequest ''authenticaApi'' options r])"
        by (simp add: io_bind_run host_result_def)
      moreover have "item_events i (fst (k res (tr @ [?c, HttpRequest ''authenticaApi'' options r])))
          [?c, HttpRequest ''authenticaApi'' options r]"
        unfolding item_events_def
        by (intro exI [of _ "[]"] exI [of _ "[?c, HttpRequest ''authenticaApi'' options r]"])
           (simp add: ev assms)
      ultimately show ?thesis by (simp add: assms)
    qed
  qed
qed

lemma yields_otp_send: "yields (item_events i) (otp_send h i)"
  unfolding otp_send_def Let_def
  by (intro yields_quiet_bind yields_quiet_quiet yields_param yields_if yields_silent yields_doRequest)
     (simp_all add: per_item_parameters_def io_return_def is_validation_error_def)

lemma yields_otp_verify: "yields (item_events i) (otp_verify h i)"
  unfolding otp_verify_def Let_def
  by (intro yields_quiet_bind yields_quiet_quiet yields_param yields_if yields_silent yields_doRequest)
     (simp_all add: per_item_parameters_def io_return_def is_validation_error_def)

lemma extract_balance_error:
  "extract_balance res = Inl e \<Longrightarrow> \<exists>m. e = TypeError m"
  by (cases res) (auto simp: extract_balance_def Let_def)

lemma yields_account_getBalance: "yields (item_events i) (account_getBalance h i)"
  unfolding account_getBalance_def
proof (rule yields_doRequest)
  fix res tr
  show "snd (io_bind (io_lift (extract_balance res)) (\<lambda>balance. io_return ([(js ''balance'', balance)], res)) tr) = tr
      \<and> \<not> is_validation_error (fst (io_bind (io_lift (extract_balance res))
            (\<lambda>balance. io_return ([(js ''balance'', balance)], res)) tr))"
    using extract_balance_error [of res]
    by (cases "extract_balance res")
       (auto simp: io_bind_def io_lift_def io_return_def is_validation_error_def)
qed

subsection \<open>The try block by operation\<close>

lemma try_block_send:
  "try_block h (str ''otp'') (str ''send'') includeRaw i =
     io_bind (otp_send h i) (\<lambda>p. io_return (attach_raw includeRaw p))"
  by (simp add: try_block_def js_def io_bind_return attach_raw_def case_prod_unfold cong: if_cong)

lemma try_block_verify:
  "try_block h (str ''otp'') (str ''verify'') includeRaw i =
     io_bind (otp_verify h i) (\<lambda>p. io_return (attach_raw includeRaw p))"
  by (simp add: try_block_def js_def io_bind_return attach_raw_def case_prod_unfold cong: if_cong)

lemma try_block_getBalance:
  "try_block h (str ''account'') (str ''getBalance'') includeRaw i =
     io_bind (account_getBalance h i) (\<lambda>p. io_return (attach_raw includeRaw p))"
  by (simp add: try_block_def js_def io_bind_return attach_raw_def case_prod_unfold cong: if_cong)

lemma try_block_other:
  assumes "\<not> (resource = str ''otp'' \<and> operation = str ''send'')"
    "\<not> (resource = str ''otp'' \<and> operation = str ''verify'')"
    "\<not> (resource = str ''account'' \<and> operation = str ''getBalance'')"
  shows "try_block h resource operation includeRaw i = io_return []"
  using assms by (auto simp: try_block_def io_bind_return)

lemma yields_map:
  assumes "yields (item_events i) m"
  shows "yields (item_events i) (io_bind m (\<lambda>x. io_return (g x)))"
proof (rule yields_bind [OF assms, where Q = "\<lambda>x r b. b = [] \<and> r = Inr (g x)"])
  show "\<And>x. yields (\<lambda>r b. b = [] \<and> r = Inr (g x)) (io_return (g x))"
    by (simp add: yields_def io_return_def)
next
  fix e :: js_error and a
  assume "item_events i (Inl e :: js_error + 'a) a"
  then show "item_events i (Inl e :: js_error + 'b) a"
    by (simp add: item_events_def is_validation_error_def)
next
  fix x :: 'a and a :: "event list" and r :: "js_error + 'b" and b :: "event list"
  assume "item_events i (Inr x :: js_error + 'a) a" "b = [] \<and> r = Inr (g x)"
  then show "item_events i r (a @ b)"
    by (simp add: item_events_def is_validation_error_def)
qed

lemma yields_try_block: "yields (item_events i) (try_block h resource operation includeRaw i)"
proof -
  consider (send) "resource = str ''otp''" "operation = str ''send''"
    | (verify) "resource = str ''otp''" "operation = str ''verify''"
    | (balance) "resource = str ''account''" "operation = str ''getBalance''"
    | (other) "\<not> (resource = str ''otp'' \<and> operation = str ''send'')"
        "\<not> (resource = str ''otp'' \<and> operation = str ''verify'')"
        "\<not> (resource = str ''account'' \<and> operation = str ''getBalance'')"
    by blast
  then show ?thesis
  proof cases
    case send
    then show ?thesis by (simp only: try_block_send yields_map yields_otp_send)
  next
    case verify
    then show ?thesis by (simp only: try_block_verify yields_map yields_otp_verify)
  next
    case balance
    then show ?thesis by (simp only: try_block_getBalance yields_map yields_account_getBalance)
  next
    case other
    then show ?thesis
      by (simp add: try_block_other yields_def io_return_def item_events_def)
  qed
qed

lemma try_block_events:
  obtains ps rs where "snd (try_block h resource operation includeRaw i tr) = tr @ ps @ rs"
    "list_all (is_param_at i) ps"
    "rs = [] \<or> (request_events rs
        \<and> \<not> is_validation_error (fst (try_block h resource operation includeRaw i tr)))"
  using yields_try_block [of i h resource operation includeRaw]
  unfolding yields_def item_events_def by (metis append_assoc)

subsection \<open>The loop\<close>

declare execute_loop.simps [simp del]

lemma try_block_at:
  "try_block h r o' w k (trace_at h r o' w tr0 k) = (outcome_at h r o' w tr0 k, trace_at h r o' w tr0 (Suc k))"
  by (simp add: outcome_at_def trace_at.simps(2))

declare trace_at.simps(2) [simp del]

lemma item_record_error: "item_record k (Inl e) = error_record e k"
  by (simp add: error_record_def)

lemma execute_loop_step:
  assumes "i < length items"
  shows "execute_loop h items r o' w i rd (trace_at h r o' w tr0 i) =
     (case outcome_at h r o' w tr0 i of
        Inr out \<Rightarrow> execute_loop h items r o' w (Suc i) (rd @ [item_record i (Inr out)])
                     (trace_at h r o' w tr0 (Suc i))
      | Inl e \<Rightarrow> if continueOnFail h
                 then execute_loop h items r o' w (Suc i) (rd @ [item_record i (Inl e)])
                        (trace_at h r o' w tr0 (Suc i))
                 else (Inl (new_NodeApiError e i), trace_at h r o' w tr0 (Suc i)))"
  using assms
  by (subst execute_loop.simps) (simp add: try_block_at error_record_def split: sum.splits)

lemma execute_loop_done:
  "\<not> i < length items \<Longrightarrow> execute_loop h items r o' w i rd tr = (Inr rd, tr)"
  by (subst execute_loop.simps) simp

lemma execute_loop_completes:
  assumes "\<And>k. i \<le> k \<Longrightarrow> k < length items \<Longrightarrow>
             continueOnFail h \<or> (\<exists>out. outcome_at h r o' w tr0 k = Inr out)"
    and "i \<le> length items"
  shows "execute_loop h items r o' w i rd (trace_at h r o' w tr0 i) =
     (Inr (rd @ map (\<lambda>k. item_record k (outcome_at h r o' w tr0 k)) [i..<length items]),
      trace_at h r o' w tr0 (length items))"
  using assms
proof (induction "length items - i" arbitrary: i rd)
  case 0
  then have "i = length items" by simp
  then show ?case by (simp add: execute_loop_done)
next
  case (Suc d)
  then have lt: "i < length items" by simp
  have IH: "execute_loop h items r o' w (Suc i) rd' (trace_at h r o' w tr0 (Suc i)) =
     (Inr (rd' @ map (\<lambda>k. item_record k (outcome_at h r o' w tr0 k)) [Suc i..<length items]),
      trace_at h r o' w tr0 (length items))" for rd'
    using Suc.hyps(2) lt Suc.prems(1) by (intro Suc.hyps(1)) auto
  from Suc.prems(1) [of i] lt
  have ok: "continueOnFail h \<or> (\<exists>out. outcome_at h r o' w tr0 i = Inr out)" by simp
  have upt: "[i..<length items] = i # [Suc i..<length items]"
    using lt by (simp add: upt_conv_Cons)
  show ?case
  proof (cases "outcome_at h r o' w tr0 i")
    case (Inr out)
    then show ?thesis by (simp add: execute_loop_step [OF lt] IH upt)
  next
    case (Inl e)
    with ok have "continueOnFail h" by simp
    with Inl show ?thesis by (simp add: execute_loop_step [OF lt] IH upt)
  qed
qed

lemma execute_loop_aborts:
  assumes "\<not> continueOnFail h" "j < length items" "i \<le> j"
    and "outcome_at h r o' w tr0 j = Inl e"
    and "\<And>k. i \<le> k \<Longrightarrow> k < j \<Longrightarrow> \<exists>out. outcome_at h r o' w tr0 k = Inr out"
  shows "execute_loop h items r o' w i rd (trace_at h r o' w tr0 i) =
     (Inl (new_NodeApiError e j), trace_at h r o' w tr0 (Suc j))"
  using assms(3,5)
proof (induction "j - i" arbitrary: i rd)
  case 0
  then have "i = j" by simp
  with assms(1,2,4) show ?case by (simp add: execute_loop_step)
next
  case (Suc d)
  then have lt: "i < j" by simp
  with assms(2) have lti: "i < length items" by simp
  from Suc.prems(2) [of i] lt obtain out where out: "outcome_at h r o' w tr0 i = Inr out" by auto
  have "execute_loop h items r o' w (Suc i) rd' (trace_at h r o' w tr0 (Suc i)) =
     (Inl (new_NodeApiError e j), trace_at h r o' w tr0 (Suc j))" for rd'
    using Suc.hyps(2) lt Suc.prems(2) by (intro Suc.hyps(1)) auto
  with out show ?case by (simp add: execute_loop_step [OF lti])
qed

text \<open>The first failing item, if any.\<close>

lemma first_failure:
  assumes "outcome_at h r o' w tr0 j = Inl e"
  obtains j' e' where "j' \<le> j" "outcome_at h r o' w tr0 j' = Inl e'"
    "\<And>k. k < j' \<Longrightarrow> \<exists>out. outcome_at h r o' w tr0 k = Inr out"
proof -
  define P where "P k \<longleftrightarrow> (\<exists>e. outcome_at h r o' w tr0 k = Inl e)" for k
  from assms have "P j" by (auto simp: P_def)
  define j' where "j' = (LEAST k. P k)"
  have "P j'" unfolding j'_def using \<open>P j\<close> by (rule LeastI)
  then obtain e' where e': "outcome_at h r o' w tr0 j' = Inl e'" by (auto simp: P_def)
  have le: "j' \<le> j" unfolding j'_def using \<open>P j\<close> by (rule Least_le)
  have "\<exists>out. outcome_at h r o' w tr0 k = Inr out" if "k < j'" for k
  proof -
    from that have "\<not> P k" unfolding j'_def by (rule not_less_Least)
    then show ?thesis unfolding P_def by (cases "outcome_at h r o' w tr0 k") auto
  qed
  with le e' show ?thesis by (rule that)
qed

lemma execute_run:
  "execute h =
     (case getNodeParameter h ''resource'' 0 None of
        Inl m \<Rightarrow> (Inl (Uncaught (HostError m)), [GetNodeParameter ''resource'' 0])
      | Inr r \<Rightarrow>
     (case getNodeParameter h ''operation'' 0 None of
        Inl m \<Rightarrow> (Inl (Uncaught (HostError m)),
                   [GetNodeParameter ''resource'' 0, GetNodeParameter ''operation'' 0])
      | Inr o' \<Rightarrow>
     (case getNodeParameter h ''includeRaw'' 0 (Some (JBool False)) of
        Inl m \<Rightarrow> (Inl (Uncaught (HostError m)), initial_trace)
      | Inr w \<Rightarrow>
          (case execute_loop h (getInputData h) r o' w 0 [] initial_trace of
             (Inl e, tr') \<Rightarrow> (Inl e, tr')
           | (Inr returnData, tr') \<Rightarrow> (Inr [returnData], tr')))))"
  by (simp add: execute_def io_defs initial_trace_def Let_def split: sum.splits)

subsection \<open>Validation\<close>

lemma otp_send_run:
  assumes "getNodeParameter h ''otpMethod'' i None = Inr m"
    "getNodeParameter h ''phone'' i (Some (JStr [])) = Inr phone"
    "getNodeParameter h ''email'' i (Some (JStr [])) = Inr email"
  shows "otp_send h i tr =
     (let tr3 = tr @ [GetNodeParameter ''otpMethod'' i, GetNodeParameter ''phone'' i,
                      GetNodeParameter ''email'' i]
      in case (if m \<noteq> str ''email'' then isE164 phone else isEmail email) of
           Inl e \<Rightarrow> (Inl e, tr3)
         | Inr ok \<Rightarrow>
             if \<not> ok
             then (Inl (NodeOperationError
                     (if m \<noteq> str ''email'' then js ''Phone must be E.164, e.g. +9665XXXXXXX''
                      else js ''Email is not valid'')), tr3)
             else io_bind
                    (doRequest h POST (js ''/api/v2/send-otp'')
                       (Some (if m = str ''email''
                              then [(js ''method'', m), (js ''email'', email)]
                              else [(js ''method'', m), (js ''phone'', phone)])) i)
                    (\<lambda>res. io_return ([(js ''success'', JBool True)], res)) tr3)"
  using assms
  by (simp add: otp_send_def io_defs Let_def js_def split: sum.splits)

lemma otp_verify_run:
  assumes "getNodeParameter h ''verifyWith'' i None = Inr w"
    "getNodeParameter h ''otp'' i None = Inr otp"
    "getNodeParameter h (if w = str ''email'' then ''verifyEmail'' else ''verifyPhone'') i None = Inr v"
  shows "otp_verify h i tr =
     (let tr3 = tr @ [GetNodeParameter ''verifyWith'' i, GetNodeParameter ''otp'' i,
                      GetNodeParameter (if w = str ''email'' then ''verifyEmail'' else ''verifyPhone'') i]
      in case (if w = str ''email'' then isEmail v else isE164 v) of
           Inl e \<Rightarrow> (Inl e, tr3)
         | Inr ok \<Rightarrow>
             if \<not> ok
             then (Inl (NodeOperationError
                     (if w = str ''email'' then js ''Email is not valid''
                      else js ''Phone must be E.164, e.g. +9665XXXXXXX'')), tr3)
             else io_bind
                    (doRequest h POST (js ''/api/v2/verify-otp'')
                       (Some (if w = str ''email''
                              then [(js ''otp'', otp), (js ''email'', v)]
                              else [(js ''otp'', otp), (js ''phone'', v)])) i)
                    (\<lambda>res. io_return ([(js ''verified'', JBool True)], res)) tr3)"
proof (cases "w = str ''email''")
  case True
  with assms show ?thesis
    by (simp add: otp_verify_def io_defs Let_def js_def field_def split: sum.splits)
next
  case False
  with assms show ?thesis
    by (simp add: otp_verify_def io_defs Let_def js_def field_def split: sum.splits)
qed

lemma doRequest_not_validation:
  "\<not> is_validation_error (fst (io_bind (doRequest h m path b i) (\<lambda>res. io_return (g res)) tr))"
  by (simp add: io_bind_run doRequest_run Let_def host_result_def io_return_def
      is_validation_error_def split: sum.splits)

lemma map_result_validation:
  "is_validation_error (fst (io_bind m (\<lambda>p. io_return (g p)) tr)) = is_validation_error (fst (m tr))"
  by (simp add: io_bind_run io_return_def is_validation_error_def split: sum.splits)

lemma validator_error:
  "isE164 v = Inl e \<Longrightarrow> \<exists>t. e = TypeError t" "isEmail v = Inl e \<Longrightarrow> \<exists>t. e = TypeError t"
  by (cases v; auto simp: isE164_def isEmail_def)+

lemma checked_request_validation:
  assumes "\<And>e. check = Inl e \<Longrightarrow> \<exists>t. e = TypeError t"
  shows "is_validation_error (fst (case check of
           Inl e \<Rightarrow> (Inl e, tr3)
         | Inr ok \<Rightarrow>
             if \<not> ok then (Inl (NodeOperationError msg), tr3)
             else io_bind (doRequest h m path b i) (\<lambda>res. io_return (g res)) tr3))
     \<longleftrightarrow> check = Inr False"
proof (cases check)
  case (Inl e')
  with assms [of e'] show ?thesis by (auto simp: is_validation_error_def)
next
  case (Inr ok)
  then show ?thesis
    using doRequest_not_validation [of h m path b i g tr3]
    by (cases ok) (simp_all add: is_validation_error_def)
qed

lemma send_validation:
  assumes "getNodeParameter h ''otpMethod'' i None = Inr m"
    "getNodeParameter h ''phone'' i (Some (JStr [])) = Inr phone"
    "getNodeParameter h ''email'' i (Some (JStr [])) = Inr email"
  shows "is_validation_error (fst (try_block h (str ''otp'') (str ''send'') includeRaw i tr)) \<longleftrightarrow>
     (if m \<noteq> str ''email'' then isE164 phone = Inr False else isEmail email = Inr False)"
proof -
  have "is_validation_error (fst (otp_send h i tr)) \<longleftrightarrow>
     (if m \<noteq> str ''email'' then isE164 phone else isEmail email) = Inr False"
    unfolding otp_send_run [OF assms] Let_def
    by (rule checked_request_validation) (auto dest: validator_error split: if_splits)
  then show ?thesis
    unfolding try_block_send map_result_validation by (cases "m = str ''email''") simp_all
qed

lemma verify_validation:
  assumes "getNodeParameter h ''verifyWith'' i None = Inr w"
    "getNodeParameter h ''otp'' i None = Inr otp"
    "getNodeParameter h (if w = str ''email'' then ''verifyEmail'' else ''verifyPhone'') i None = Inr v"
  shows "is_validation_error (fst (try_block h (str ''otp'') (str ''verify'') includeRaw i tr)) \<longleftrightarrow>
     (if w \<noteq> str ''email'' then isE164 v = Inr False else isEmail v = Inr False)"
proof -
  have "is_validation_error (fst (otp_verify h i tr)) \<longleftrightarrow>
     (if w = str ''email'' then isEmail v else isE164 v) = Inr False"
    unfolding otp_verify_run [OF assms] Let_def
    by (rule checked_request_validation) (auto dest: validator_error split: if_splits)
  then show ?thesis
    unfolding try_block_verify map_result_validation by (cases "w = str ''email''") simp_all
qed

lemma http_calls_params: "list_all (is_param_at i) ps \<Longrightarrow> http_calls ps = []"
  by (induction ps) (auto simp: http_calls_def is_http_def is_param_at_def split: event.splits)

lemma validation_error_no_request:
  assumes "is_validation_error (fst (try_block h resource operation includeRaw i tr))"
  shows "http_calls (snd (try_block h resource operation includeRaw i tr)) = http_calls tr"
proof -
  obtain ps rs where "snd (try_block h resource operation includeRaw i tr) = tr @ ps @ rs"
    "list_all (is_param_at i) ps"
    "rs = [] \<or> (request_events rs
        \<and> \<not> is_validation_error (fst (try_block h resource operation includeRaw i tr)))"
    by (rule try_block_events)
  with assms http_calls_params [of i ps] show ?thesis by (auto simp: http_calls_def)
qed

lemma demo_invalid_phone: "isE164 (str ''0512345678'') = Inr False"
  by code_simp

lemma demo_invalid_email: "isEmail (str ''user.example.com'') = Inr False"
  by code_simp

subsection \<open>Dispatched requests\<close>

lemma map_result_trace: "snd (io_bind m (\<lambda>p. io_return (g p)) tr) = snd (m tr)"
  by (simp add: io_bind_run io_return_def split: sum.splits)

lemma doRequest_trace:
  assumes "getCredentials h ''authenticaApi'' = Inr creds"
  shows "snd (doRequest h m path b i tr) =
     tr @ [GetCredentials ''authenticaApi'',
           HttpRequest ''authenticaApi''
             (request_options (base_url creds) m path (if m \<noteq> GET then b else None))
             (httpRequestWithAuthentication h (tr @ [GetCredentials ''authenticaApi''])
                ''authenticaApi''
                (request_options (base_url creds) m path (if m \<noteq> GET then b else None)))]"
  using assms by (simp add: doRequest_run Let_def request_options_def)

lemma http_calls_simps:
  "http_calls [] = []"
  "http_calls (GetNodeParameter name k # evs) = http_calls evs"
  "http_calls (GetCredentials c # evs) = http_calls evs"
  "http_calls (HttpRequest c options r # evs) = HttpRequest c options r # http_calls evs"
  "http_calls (xs @ ys) = http_calls xs @ http_calls ys"
  by (simp_all add: http_calls_def is_http_def)

lemma send_request:
  assumes "getNodeParameter h ''otpMethod'' i None = Inr m"
    "getNodeParameter h ''phone'' i (Some (JStr [])) = Inr phone"
    "getNodeParameter h ''email'' i (Some (JStr [])) = Inr email"
    "(if m \<noteq> str ''email'' then isE164 phone else isEmail email) = Inr True"
    "getCredentials h ''authenticaApi'' = Inr creds"
  shows "\<exists>r. http_calls (drop (length tr)
            (snd (try_block h (str ''otp'') (str ''send'') includeRaw i tr))) =
     [HttpRequest ''authenticaApi''
        (request_options (base_url creds) POST (js ''/api/v2/send-otp'')
           (Some (if m = str ''email''
                  then [(js ''method'', m), (js ''email'', email)]
                  else [(js ''method'', m), (js ''phone'', phone)]))) r]"
  unfolding try_block_send map_result_trace otp_send_run [OF assms(1-3)] Let_def assms(4)
  by (simp add: map_result_trace doRequest_trace [OF assms(5)] http_calls_simps)

lemma verify_request:
  assumes "getNodeParameter h ''verifyWith'' i None = Inr w"
    "getNodeParameter h ''otp'' i None = Inr otp"
    "getNodeParameter h (if w = str ''email'' then ''verifyEmail'' else ''verifyPhone'') i None = Inr v"
    "(if w = str ''email'' then isEmail v else isE164 v) = Inr True"
    "getCredentials h ''authenticaApi'' = Inr creds"
  shows "\<exists>r. http_calls (drop (length tr)
            (snd (try_block h (str ''otp'') (str ''verify'') includeRaw i tr))) =
     [HttpRequest ''authenticaApi''
        (request_options (base_url creds) POST (js ''/api/v2/verify-otp'')
           (Some (if w = str ''email''
                  then [(js ''otp'', otp), (js ''email'', v)]
                  else [(js ''otp'', otp), (js ''phone'', v)]))) r]"
  unfolding try_block_verify map_result_trace otp_verify_run [OF assms(1-3)] Let_def assms(4)
  by (simp add: map_result_trace doRequest_trace [OF assms(5)] http_calls_simps)

lemma account_getBalance_trace:
  "snd (account_getBalance h i tr) = snd (doRequest h GET (js ''/api/v2/balance'') None i tr)"
  by (simp add: account_getBalance_def io_bind_run io_lift_def io_return_def split: sum.splits)

lemma getBalance_request:
  assumes "getCredentials h ''authenticaApi'' = Inr creds"
  shows "\<exists>r. http_calls (drop (length tr)
            (snd (try_block h (str ''account'') (str ''getBalance'') includeRaw i tr))) =
     [HttpRequest ''authenticaApi''
        (request_options (base_url creds) GET (js ''/api/v2/balance'') None) r]"
  unfolding try_block_getBalance map_result_trace account_getBalance_trace
  by (simp add: doRequest_trace [OF assms] http_calls_simps)

lemma base_url_cases:
  "creds = Some c \<Longrightarrow> map_of c (js ''baseUrl'') = Some u \<Longrightarrow> u \<noteq> [] \<Longrightarrow> base_url creds = u"
  "\<forall>c. creds = Some c \<longrightarrow> map_of c (js ''baseUrl'') \<in> {None, Some []} \<Longrightarrow>
     base_url creds = js ''https://api.authentica.sa''"
  by (auto simp: base_url_def split: option.splits)

lemma demo_credentials:
  "getCredentials (demo_host resource operation cof) ''authenticaApi'' =
     Inr (Some [(js ''apiKey'', js ''key-1''), (js ''baseUrl'', [])])"
  "base_url (Some [(js ''apiKey'', js ''key-1''), (js ''baseUrl'', [])]) = js ''https://api.authentica.sa''"
  by (simp_all add: demo_host_def base_url_def js_def)

subsection \<open>Whole runs\<close>


lemma execute_resolved:
  assumes "getNodeParameter h ''resource'' 0 None = Inr r"
    "getNodeParameter h ''operation'' 0 None = Inr o'"
    "getNodeParameter h ''includeRaw'' 0 (Some (JBool False)) = Inr w"
  shows "execute h =
     (case execute_loop h (getInputData h) r o' w 0 [] (trace_at h r o' w initial_trace 0) of
        (Inl e, tr') \<Rightarrow> (Inl e, tr')
      | (Inr returnData, tr') \<Rightarrow> (Inr [returnData], tr'))"
  using assms by (simp add: execute_run)

lemma execute_completes:
  assumes "getNodeParameter h ''resource'' 0 None = Inr r"
    "getNodeParameter h ''operation'' 0 None = Inr o'"
    "getNodeParameter h ''includeRaw'' 0 (Some (JBool False)) = Inr w"
    "continueOnFail h \<or> (\<forall>k<length (getInputData h). \<exists>out. outcome_at h r o' w initial_trace k = Inr out)"
  shows "execute h =
     (Inr [map (\<lambda>k. item_record k (outcome_at h r o' w initial_trace k)) [0..<length (getInputData h)]],
      trace_at h r o' w initial_trace (length (getInputData h)))"
proof -
  have "execute_loop h (getInputData h) r o' w 0 [] (trace_at h r o' w initial_trace 0) =
     (Inr ([] @ map (\<lambda>k. item_record k (outcome_at h r o' w initial_trace k)) [0..<length (getInputData h)]),
      trace_at h r o' w initial_trace (length (getInputData h)))"
    using assms(4) by (intro execute_loop_completes) auto
  then show ?thesis unfolding execute_resolved [OF assms(1-3)] by simp
qed

lemma execute_aborts:
  assumes "getNodeParameter h ''resource'' 0 None = Inr r"
    "getNodeParameter h ''operation'' 0 None = Inr o'"
    "getNodeParameter h ''includeRaw'' 0 (Some (JBool False)) = Inr w"
    "\<not> continueOnFail h" "j < length (getInputData h)"
    "outcome_at h r o' w initial_trace j = Inl e"
    "\<forall>k<j. \<exists>out. outcome_at h r o' w initial_trace k = Inr out"
  shows "execute h = (Inl (new_NodeApiError e j), trace_at h r o' w initial_trace (Suc j))"
proof -
  have "execute_loop h (getInputData h) r o' w 0 [] (trace_at h r o' w initial_trace 0) =
     (Inl (new_NodeApiError e j), trace_at h r o' w initial_trace (Suc j))"
    using assms(4-7) by (intro execute_loop_aborts) auto
  then show ?thesis unfolding execute_resolved [OF assms(1-3)] by simp
qed

lemma first_failure_ex:
  assumes "outcome_at h r o' w tr0 j = Inl e"
  shows "\<exists>j' e'. j' \<le> j \<and> outcome_at h r o' w tr0 j' = Inl e'
      \<and> (\<forall>k<j'. \<exists>out. outcome_at h r o' w tr0 k = Inr out)"
  by (rule first_failure [OF assms]) blast

lemma execute_returns:
  assumes "fst (execute h) = Inr out"
  shows "\<exists>r o' w. getNodeParameter h ''resource'' 0 None = Inr r
      \<and> getNodeParameter h ''operation'' 0 None = Inr o'
      \<and> getNodeParameter h ''includeRaw'' 0 (Some (JBool False)) = Inr w
      \<and> out = [map (\<lambda>k. item_record k (outcome_at h r o' w initial_trace k))
                 [0..<length (getInputData h)]]"
proof -
  from assms obtain r o' w where reads: "getNodeParameter h ''resource'' 0 None = Inr r"
      "getNodeParameter h ''operation'' 0 None = Inr o'"
      "getNodeParameter h ''includeRaw'' 0 (Some (JBool False)) = Inr w"
    by (auto simp: execute_run split: sum.splits)
  have ok: "continueOnFail h \<or> (\<forall>k<length (getInputData h). \<exists>out. outcome_at h r o' w initial_trace k = Inr out)"
  proof (rule ccontr)
    assume neg: "\<not> ?thesis"
    then obtain j e where j: "j < length (getInputData h)" "outcome_at h r o' w initial_trace j = Inl e"
      by (metis sumE)
    obtain j' e' where j': "j' \<le> j" "outcome_at h r o' w initial_trace j' = Inl e'"
        "\<forall>k<j'. \<exists>out. outcome_at h r o' w initial_trace k = Inr out"
      using first_failure_ex [OF j(2)] by blast
    with j(1) neg have "execute h = (Inl (new_NodeApiError e' j'), trace_at h r o' w initial_trace (Suc j'))"
      by (intro execute_aborts reads) auto
    with assms show False by simp
  qed
  from assms show ?thesis
    unfolding execute_completes [OF reads ok] using reads by auto
qed

lemma demo_reads:
  "getNodeParameter (demo_host resource operation cof) ''resource'' 0 None = Inr (str resource)"
  "getNodeParameter (demo_host resource operation cof) ''operation'' 0 None = Inr (str operation)"
  "getNodeParameter (demo_host resource operation cof) ''includeRaw'' 0 (Some (JBool False)) = Inr (JBool True)"
  "length (getInputData (demo_host resource operation cof)) = 2"
  "continueOnFail (demo_host resource operation cof) = cof"
  by (simp_all add: demo_host_def demo_parameter_def)

lemma demo_send_outcomes:
  "outcome_at (demo_host ''otp'' ''send'' cof) (str ''otp'') (str ''send'') (JBool True) initial_trace 0 =
     Inr [(js ''success'', JBool True), (js ''raw'', JObj [(js ''success'', JBool True)])]"
  "outcome_at (demo_host ''otp'' ''send'' cof) (str ''otp'') (str ''send'') (JBool True) initial_trace (Suc 0) =
     Inl (NodeOperationError (js ''Phone must be E.164, e.g. +9665XXXXXXX''))"
  by code_simp+

lemma demo_unmatched_run:
  "fst (execute (demo_host ''account'' ''send'' False)) =
     Inr [[\<lparr> json = [], pairedItem = None \<rparr>, \<lparr> json = [], pairedItem = None \<rparr>]]"
  by code_simp

lemma upt_2: "[0..<2] = [0, Suc 0]"
  by (simp add: upt_conv_Cons)

subsection \<open>The balance\<close>

lemma opt_prop_member: "opt_prop v (js k) = member v k"
  by (cases v) (simp_all add: member_def field_def)

lemma get_prop_member: "is_set v \<Longrightarrow> get_prop v (js k) = Inr (member v k)"
  by (cases v) (simp_all add: member_def field_def is_set_def)

lemma extract_balance_chain: "is_set res \<Longrightarrow> extract_balance res = Inr (balance_chain res)"
  by (simp add: extract_balance_def get_prop_member opt_prop_member balance_chain_def Let_def
      coalesce_def nullish_def is_set_def)

lemma getBalance_outcome:
  assumes "getCredentials h ''authenticaApi'' = Inr creds"
    "httpRequestWithAuthentication h (tr @ [GetCredentials ''authenticaApi'']) ''authenticaApi''
       (request_options (base_url creds) GET (js ''/api/v2/balance'') None) = Inr res"
    "is_set res"
  shows "fst (try_block h (str ''account'') (str ''getBalance'') includeRaw i tr) =
     Inr (if truthy includeRaw \<and> truthy res
          then [(js ''balance'', balance_chain res), (js ''raw'', res)]
          else [(js ''balance'', balance_chain res)])"
proof -
  have "account_getBalance h i tr =
     (Inr ([(js ''balance'', balance_chain res)], res),
      tr @ [GetCredentials ''authenticaApi'',
            HttpRequest ''authenticaApi''
              (request_options (base_url creds) GET (js ''/api/v2/balance'') None) (Inr res)])"
    using assms(1,2)
    by (simp add: account_getBalance_def io_bind_run doRequest_run Let_def host_result_def
        request_options_def io_lift_def io_return_def extract_balance_chain [OF assms(3)])
  then show ?thesis
    unfolding try_block_getBalance
    by (simp add: io_bind_run io_return_def attach_raw_def js_def)
qed

lemma balance_missing:
  assumes "member (if is_set (member res ''data'') then member res ''data'' else res) ''balance''
             = JUndefined"
    "member (member (if is_set (member res ''data'') then member res ''data'' else res) ''data'')
       ''balance'' = JUndefined"
  shows "balance_chain res = JUndefined"
  using assms by (simp add: balance_chain_def Let_def is_set_def)

lemma demo_balance_response:
  "httpRequestWithAuthentication (demo_host ''account'' ''getBalance'' True)
     (initial_trace @ [GetCredentials ''authenticaApi'']) ''authenticaApi''
     (request_options (js ''https://api.authentica.sa'') GET (js ''/api/v2/balance'') None) =
   Inr (JObj [(js ''data'', JObj [(js ''balance'', JNum 100)])])"
  by (simp add: demo_host_def demo_transport_def request_options_def http_calls_simps
      initial_trace_def)

lemma demo_balance_chain:
  "balance_chain (JObj [(js ''data'', JObj [(js ''balance'', JNum 100)])]) = JNum 100"
  "balance_chain (JObj [(js ''balance'', JNull), (js ''data'', JObj [(js ''balance'', JNum 7)])]) = JNum 7"
  "is_set (JObj kvs)"
  "member (JObj [(js ''credits'', JNum 5)]) ''data'' = JUndefined"
  "member (JObj [(js ''credits'', JNum 5)]) ''balance'' = JUndefined"
  "member JUndefined k = JUndefined"
  by (simp_all add: balance_chain_def member_def is_set_def js_def)

subsection \<open>Successful items\<close>

lemma yields_tail_bind:
  assumes "yields P m" "\<And>x. yields (on_success S) (f x)"
    and "\<And>y a b. S y b \<Longrightarrow> S y (a @ b)"
  shows "yields (on_success S) (io_bind m f)"
  by (rule yields_bind [OF assms(1), where Q = "\<lambda>x. on_success S"])
     (use assms(2,3) in \<open>auto simp: on_success_def\<close>)

lemma answered_append: "answered g y b \<Longrightarrow> answered g y (a @ b)"
  by (auto simp: answered_def)

lemma yields_answered:
  "yields (on_success (answered g)) (io_bind (doRequest h m path b j) (\<lambda>res. io_return (g res)))"
  unfolding yields_def on_success_def answered_def
  by (auto simp: io_bind_run doRequest_run Let_def host_result_def io_return_def split: sum.splits)

lemma yields_otp_send_success:
  "yields (on_success (answered (\<lambda>res. ([(js ''success'', JBool True)], res)))) (otp_send h i)"
  unfolding otp_send_def Let_def
  by (intro yields_tail_bind [where P = "quiet i"] yields_quiet_quiet yields_param yields_if
        yields_silent yields_answered answered_append)
     (simp_all add: per_item_parameters_def)

lemma yields_otp_verify_success:
  "yields (on_success (answered (\<lambda>res. ([(js ''verified'', JBool True)], res)))) (otp_verify h i)"
  unfolding otp_verify_def Let_def
  by (intro yields_tail_bind [where P = "quiet i"] yields_quiet_quiet yields_param yields_if
        yields_silent yields_answered answered_append)
     (simp_all add: per_item_parameters_def)

lemma bind_return_success:
  "fst (io_bind m (\<lambda>p. io_return (g p)) tr) = Inr out \<Longrightarrow> \<exists>p. fst (m tr) = Inr p \<and> out = g p"
  by (auto simp: io_bind_run io_return_def split: sum.splits)

lemma answered_last:
  assumes "yields (on_success (answered g)) m" "fst (m tr) = Inr p"
  shows "\<exists>res cred options. p = g res \<and> last (snd (m tr)) = HttpRequest cred options (Inr res)"
proof -
  from assms(1) obtain evs where "snd (m tr) = tr @ evs" "on_success (answered g) (fst (m tr)) evs"
    unfolding yields_def by blast
  with assms(2) show ?thesis
    unfolding on_success_def answered_def by (metis last_appendR)
qed

lemma attach_raw_fresh:
  "k \<noteq> js ''raw'' \<Longrightarrow> attach_raw includeRaw ([(k, v)], res) =
     [(k, v)] @ (if truthy includeRaw \<and> truthy res then [(js ''raw'', res)] else [])"
  by (simp add: attach_raw_def)

lemma send_outcome:
  assumes "fst (try_block h (str ''otp'') (str ''send'') includeRaw i tr) = Inr out"
  shows "\<exists>cred options res.
      last (snd (try_block h (str ''otp'') (str ''send'') includeRaw i tr))
        = HttpRequest cred options (Inr res)
      \<and> out = [(js ''success'', JBool True)]
              @ (if truthy includeRaw \<and> truthy res then [(js ''raw'', res)] else [])"
proof -
  from assms obtain p where p: "fst (otp_send h i tr) = Inr p" "out = attach_raw includeRaw p"
    unfolding try_block_send by (blast dest: bind_return_success)
  from answered_last [OF yields_otp_send_success p(1)]
  obtain res cred options where "p = ([(js ''success'', JBool True)], res)"
      "last (snd (otp_send h i tr)) = HttpRequest cred options (Inr res)"
    by blast
  with p(2) show ?thesis
    unfolding try_block_send map_result_trace by (simp add: attach_raw_fresh js_def)
qed

lemma verify_outcome:
  assumes "fst (try_block h (str ''otp'') (str ''verify'') includeRaw i tr) = Inr out"
  shows "\<exists>cred options res.
      last (snd (try_block h (str ''otp'') (str ''verify'') includeRaw i tr))
        = HttpRequest cred options (Inr res)
      \<and> out = [(js ''verified'', JBool True)]
              @ (if truthy includeRaw \<and> truthy res then [(js ''raw'', res)] else [])"
proof -
  from assms obtain p where p: "fst (otp_verify h i tr) = Inr p" "out = attach_raw includeRaw p"
    unfolding try_block_verify by (blast dest: bind_return_success)
  from answered_last [OF yields_otp_verify_success p(1)]
  obtain res cred options where "p = ([(js ''verified'', JBool True)], res)"
      "last (snd (otp_verify h i tr)) = HttpRequest cred options (Inr res)"
    by blast
  with p(2) show ?thesis
    unfolding try_block_verify map_result_trace by (simp add: attach_raw_fresh js_def)
qed

lemma account_getBalance_success:
  assumes "fst (account_getBalance h i tr) = Inr p"
  shows "\<exists>cred options res balance.
      last (snd (account_getBalance h i tr)) = HttpRequest cred options (Inr res)
      \<and> extract_balance res = Inr balance \<and> p = ([(js ''balance'', balance)], res)"
  using assms
  by (auto simp: account_getBalance_def io_bind_run doRequest_run Let_def host_result_def
      io_return_def io_lift_def split: sum.splits)

lemma getBalance_success:
  assumes "fst (try_block h (str ''account'') (str ''getBalance'') includeRaw i tr) = Inr out"
  shows "\<exists>cred options res balance.
      last (snd (try_block h (str ''account'') (str ''getBalance'') includeRaw i tr))
        = HttpRequest cred options (Inr res)
      \<and> extract_balance res = Inr balance
      \<and> out = [(js ''balance'', balance)]
              @ (if truthy includeRaw \<and> truthy res then [(js ''raw'', res)] else [])"
proof -
  from assms obtain p where p: "fst (account_getBalance h i tr) = Inr p" "out = attach_raw includeRaw p"
    unfolding try_block_getBalance by (blast dest: bind_return_success)
  from account_getBalance_success [OF p(1)]
  obtain cred options res balance where
      "last (snd (account_getBalance h i tr)) = HttpRequest cred options (Inr res)"
      "extract_balance res = Inr balance" "p = ([(js ''balance'', balance)], res)"
    by blast
  with p(2) show ?thesis
    unfolding try_block_getBalance map_result_trace by (simp add: attach_raw_fresh js_def)
qed

lemma demo_outcomes:
  "try_block (demo_host ''otp'' ''send'' True) (str ''otp'') (str ''send'') (JBool True) 0 initial_trace =
     (Inr [(js ''success'', JBool True), (js ''raw'', JObj [(js ''success'', JBool True)])],
      initial_trace @ [GetNodeParameter ''otpMethod'' 0, GetNodeParameter ''phone'' 0,
        GetNodeParameter ''email'' 0, GetCredentials ''authenticaApi'',
        HttpRequest ''authenticaApi''
          (request_options (js ''https://api.authentica.sa'') POST (js ''/api/v2/send-otp'')
             (Some [(js ''method'', str ''sms''), (js ''phone'', str ''+966512345678'')]))
          (Inr (JObj [(js ''success'', JBool True)]))])"
  by code_simp

subsection \<open>Host calls of a run\<close>

lemma item_events_facts:
  assumes "item_events i r evs"
  shows "length (http_calls evs) \<le> 1" "list_all (item_event_ok i) evs"
proof -
  from assms obtain ps rs where *: "evs = ps @ rs" "list_all (is_param_at i) ps"
      "rs = [] \<or> (request_events rs \<and> \<not> is_validation_error r)"
    unfolding item_events_def by blast
  have ps: "list_all (item_event_ok i) ps"
    using *(2) unfolding list_all_iff
    by (auto simp: is_param_at_def item_event_ok_def split: event.splits)
  from *(3) have "length (http_calls rs) \<le> 1 \<and> list_all (item_event_ok i) rs"
    by (auto simp: request_events_def http_calls_simps item_event_ok_def)
  with * ps http_calls_params [OF *(2)] show "length (http_calls evs) \<le> 1"
      "list_all (item_event_ok i) evs"
    by (simp_all add: http_calls_simps)
qed

lemma try_block_trace:
  obtains evs where "snd (try_block h resource operation includeRaw i tr) = tr @ evs"
    "length (http_calls evs) \<le> 1" "list_all (item_event_ok i) evs"
proof -
  from yields_try_block [of i h resource operation includeRaw]
  obtain evs where "snd (try_block h resource operation includeRaw i tr) = tr @ evs"
      "item_events i (fst (try_block h resource operation includeRaw i tr)) evs"
    unfolding yields_def by blast
  with item_events_facts [of i _ evs] show ?thesis by (intro that [of evs]) auto
qed

lemma trace_at_events:
  "\<exists>evs. trace_at h r o' w tr0 k = tr0 @ evs \<and> length (http_calls evs) \<le> k
      \<and> list_all (\<lambda>ev. \<exists>i<k. item_event_ok i ev) evs"
proof (induction k)
  case 0
  show ?case by (simp add: http_calls_simps)
next
  case (Suc k)
  then obtain evs where evs: "trace_at h r o' w tr0 k = tr0 @ evs" "length (http_calls evs) \<le> k"
      "list_all (\<lambda>ev. \<exists>i<k. item_event_ok i ev) evs"
    by blast
  obtain evs' where evs': "snd (try_block h r o' w k (trace_at h r o' w tr0 k)) =
      trace_at h r o' w tr0 k @ evs'"
      "length (http_calls evs') \<le> 1" "list_all (item_event_ok k) evs'"
    by (rule try_block_trace)
  have "trace_at h r o' w tr0 (Suc k) = tr0 @ (evs @ evs')"
    using evs(1) evs'(1) by (simp add: trace_at.simps(2))
  moreover have "length (http_calls (evs @ evs')) \<le> Suc k"
    using evs(2) evs'(2) by (simp add: http_calls_simps)
  moreover have "list_all (\<lambda>ev. \<exists>i<Suc k. item_event_ok i ev) (evs @ evs')"
    using evs(3) evs'(3) unfolding list_all_iff by (auto simp: less_Suc_eq)
  ultimately show ?case by blast
qed

lemma run_reaches:
  assumes "getNodeParameter h ''resource'' 0 None = Inr r"
    "getNodeParameter h ''operation'' 0 None = Inr o'"
    "getNodeParameter h ''includeRaw'' 0 (Some (JBool False)) = Inr w"
  shows "\<exists>m\<le>length (getInputData h). snd (execute h) = trace_at h r o' w initial_trace m"
proof (cases "continueOnFail h \<or> (\<forall>k<length (getInputData h). \<exists>out. outcome_at h r o' w initial_trace k = Inr out)")
  case True
  then show ?thesis by (auto simp: execute_completes [OF assms])
next
  case False
  then obtain j e where j: "j < length (getInputData h)" "outcome_at h r o' w initial_trace j = Inl e"
    by (metis sumE)
  obtain j' e' where j': "j' \<le> j" "outcome_at h r o' w initial_trace j' = Inl e'"
      "\<forall>k<j'. \<exists>out. outcome_at h r o' w initial_trace k = Inr out"
    using first_failure_ex [OF j(2)] by blast
  with j(1) False have "execute h = (Inl (new_NodeApiError e' j'), trace_at h r o' w initial_trace (Suc j'))"
    by (intro execute_aborts assms) auto
  moreover from j' j(1) have "Suc j' \<le> length (getInputData h)" by simp
  ultimately show ?thesis by (intro exI [of _ "Suc j'"]) simp
qed

lemma run_trace_cases:
  obtains (unresolved) "snd (execute h) \<in> {[GetNodeParameter ''resource'' 0],
        [GetNodeParameter ''resource'' 0, GetNodeParameter ''operation'' 0], initial_trace}"
  | (resolved) r o' w m where "getNodeParameter h ''resource'' 0 None = Inr r"
      "getNodeParameter h ''operation'' 0 None = Inr o'"
      "getNodeParameter h ''includeRaw'' 0 (Some (JBool False)) = Inr w"
      "m \<le> length (getInputData h)" "snd (execute h) = trace_at h r o' w initial_trace m"
proof (cases "\<exists>r o' w. getNodeParameter h ''resource'' 0 None = Inr r
      \<and> getNodeParameter h ''operation'' 0 None = Inr o'
      \<and> getNodeParameter h ''includeRaw'' 0 (Some (JBool False)) = Inr w")
  case True
  then obtain r o' w where reads: "getNodeParameter h ''resource'' 0 None = Inr r"
      "getNodeParameter h ''operation'' 0 None = Inr o'"
      "getNodeParameter h ''includeRaw'' 0 (Some (JBool False)) = Inr w"
    by blast
  from run_reaches [OF reads] obtain m where "m \<le> length (getInputData h)"
      "snd (execute h) = trace_at h r o' w initial_trace m"
    by blast
  with reads show ?thesis by (rule resolved)
next
  case False
  then have "snd (execute h) \<in> {[GetNodeParameter ''resource'' 0],
        [GetNodeParameter ''resource'' 0, GetNodeParameter ''operation'' 0], initial_trace}"
    by (auto simp: execute_run split: sum.splits)
  then show ?thesis by (rule unresolved)
qed

lemma run_event_cases:
  assumes "ev \<in> set (snd (execute h))"
  shows "ev \<in> set initial_trace \<or> (\<exists>i<length (getInputData h). item_event_ok i ev)"
proof (cases rule: run_trace_cases [of h])
  case unresolved
  with assms show ?thesis by (auto simp: initial_trace_def)
next
  case (resolved r o' w m)
  obtain evs where evs: "trace_at h r o' w initial_trace m = initial_trace @ evs"
      "list_all (\<lambda>ev. \<exists>i<m. item_event_ok i ev) evs"
    using trace_at_events [of h r o' w initial_trace m] by blast
  with assms resolved(4,5) show ?thesis
    unfolding list_all_iff by (auto intro: less_le_trans)
qed

subsection \<open>Authentication headers\<close>

lemma map_of_set_field:
  "map_of (set_field kvs k v) k' = (if k' = k then Some v else map_of kvs k')"
  by (induction kvs) auto

lemma resolve_apiKey:
  "resolve_value creds ''={{$credentials.apiKey}}'' = map_of creds (js ''apiKey'')"
  "resolve_value creds ''application/json'' = Some (js ''application/json'')"
  by (simp_all add: resolve_value_def)

lemma injected_headers:
  assumes "map_of creds (js ''apiKey'') = Some key"
  shows "map_of (headers (inject_authentication AuthenticaApi_authenticate creds options))
           (js ''X-Authorization'') = Some key"
    "map_of (headers (inject_authentication AuthenticaApi_authenticate creds options))
           (js ''Accept'') = Some (js ''application/json'')"
  using assms
  by (simp_all add: inject_authentication_def AuthenticaApi_authenticate_def resolve_apiKey
      map_of_set_field js_def)

lemma demo_balance_run:
  "execute (demo_host ''account'' ''getBalance'' True) =
     (Inr [[\<lparr> json = [(js ''balance'', JNum 100),
                       (js ''raw'', JObj [(js ''data'', JObj [(js ''balance'', JNum 100)])])],
              pairedItem = None \<rparr>,
            \<lparr> json = [(js ''balance'', JNum 99),
                       (js ''raw'', JObj [(js ''data'', JObj [(js ''balance'', JNum 99)])])],
              pairedItem = None \<rparr>]],
      [GetNodeParameter ''resource'' 0, GetNodeParameter ''operation'' 0,
       GetNodeParameter ''includeRaw'' 0,
       GetCredentials ''authenticaApi'',
       HttpRequest ''authenticaApi''
         (request_options (js ''https://api.authentica.sa'') GET (js ''/api/v2/balance'') None)
         (Inr (JObj [(js ''data'', JObj [(js ''balance'', JNum 100)])])),
       GetCredentials ''authenticaApi'',
       HttpRequest ''authenticaApi''
         (request_options (js ''https://api.authentica.sa'') GET (js ''/api/v2/balance'') None)
         (Inr (JObj [(js ''data'', JObj [(js ''balance'', JNum 99)])]))])"
  by code_simp

subsection \<open>Counting requests\<close>

lemma getBalance_step:
  assumes "getCredentials h ''authenticaApi'' = Inr creds"
  shows "snd (try_block h (str ''account'') (str ''getBalance'') w i tr) =
     tr @ [GetCredentials ''authenticaApi'',
           HttpRequest ''authenticaApi''
             (request_options (base_url creds) GET (js ''/api/v2/balance'') None)
             (httpRequestWithAuthentication h (tr @ [GetCredentials ''authenticaApi''])
                ''authenticaApi''
                (request_options (base_url creds) GET (js ''/api/v2/balance'') None))]"
  unfolding try_block_getBalance map_result_trace account_getBalance_trace
  by (simp add: doRequest_trace [OF assms])

lemma getBalance_calls:
  assumes "getCredentials h ''authenticaApi'' = Inr creds"
  shows "http_calls (trace_at h (str ''account'') (str ''getBalance'') w tr0 n) =
     http_calls tr0 @
     map (\<lambda>k. HttpRequest ''authenticaApi''
                 (request_options (base_url creds) GET (js ''/api/v2/balance'') None)
                 (httpRequestWithAuthentication h
                    (trace_at h (str ''account'') (str ''getBalance'') w tr0 k
                       @ [GetCredentials ''authenticaApi''])
                    ''authenticaApi''
                    (request_options (base_url creds) GET (js ''/api/v2/balance'') None)))
       [0..<n]"
proof (induction n)
  case 0
  show ?case by simp
next
  case (Suc n)
  then show ?case
    by (simp add: trace_at.simps(2) getBalance_step [OF assms] http_calls_simps)
qed

lemma run_calls_bound: "length (http_calls (snd (execute h))) \<le> length (getInputData h)"
proof (cases rule: run_trace_cases [of h])
  case unresolved
  then show ?thesis by (auto simp: initial_trace_def http_calls_simps)
next
  case (resolved r o' w m)
  obtain evs where "trace_at h r o' w initial_trace m = initial_trace @ evs"
      "length (http_calls evs) \<le> m"
    using trace_at_events [of h r o' w initial_trace m] by blast
  with resolved(4,5) show ?thesis
    by (simp add: http_calls_simps initial_trace_def)
qed

lemma item_calls_bound:
  "length (http_calls (snd (try_block h resource operation includeRaw i tr)))
     \<le> length (http_calls tr) + 1"
proof -
  obtain evs where "snd (try_block h resource operation includeRaw i tr) = tr @ evs"
    "length (http_calls evs) \<le> 1"
    by (rule try_block_trace)
  then show ?thesis by (simp add: http_calls_simps)
qed

lemma getBalance_run_calls:
  assumes "getNodeParameter h ''resource'' 0 None = Inr (str ''account'')"
    "getNodeParameter h ''operation'' 0 None = Inr (str ''getBalance'')"
    "getNodeParameter h ''includeRaw'' 0 (Some (JBool False)) = Inr w"
    "getCredentials h ''authenticaApi'' = Inr creds"
    "continueOnFail h \<or> (\<forall>k<length (getInputData h).
        \<exists>out. outcome_at h (str ''account'') (str ''getBalance'') w initial_trace k = Inr out)"
  shows "http_calls (snd (execute h)) =
     map (\<lambda>k. HttpRequest ''authenticaApi''
                 (request_options (base_url creds) GET (js ''/api/v2/balance'') None)
                 (httpRequestWithAuthentication h
                    (trace_at h (str ''account'') (str ''getBalance'') w initial_trace k
                       @ [GetCredentials ''authenticaApi''])
                    ''authenticaApi''
                    (request_options (base_url creds) GET (js ''/api/v2/balance'') None)))
       [0..<length (getInputData h)]"
  unfolding execute_completes [OF assms(1-3,5)] snd_conv getBalance_calls [OF assms(4)]
  by (simp add: initial_trace_def http_calls_simps)

lemma failing_run:
  "execute failing_host =
     (Inl (ExistingNodeApiError (js ''Request failed'') None),
      [GetNodeParameter ''resource'' 0, GetNodeParameter ''operation'' 0,
       GetNodeParameter ''includeRaw'' 0,
       GetCredentials ''authenticaApi'',
       HttpRequest ''authenticaApi''
         (request_options (js ''https://api.authentica.sa'') GET (js ''/api/v2/balance'') None)
         (Inl (ApiError (js ''Request failed'') None))])"
  by code_simp

subsection \<open>Parameter reads\<close>

lemma first_read:
  assumes "\<And>x. yields Q (f x)"
  shows "\<exists>evs. snd (io_bind (call_getNodeParameter h name i fb) f tr)
           = tr @ GetNodeParameter name i # evs"
proof (cases "getNodeParameter h name i fb")
  case (Inl msg)
  then show ?thesis
    by (simp add: io_bind_run call_getNodeParameter_def host_result_def)
next
  case (Inr x)
  from assms [of x] obtain evs where
      "snd (f x (tr @ [GetNodeParameter name i])) = (tr @ [GetNodeParameter name i]) @ evs"
    unfolding yields_def by blast
  with Inr show ?thesis
    by (simp add: io_bind_run call_getNodeParameter_def host_result_def)
qed

lemma otp_send_first_read:
  "\<exists>evs. snd (try_block h (str ''otp'') (str ''send'') includeRaw i tr)
     = tr @ GetNodeParameter ''otpMethod'' i # evs"
  unfolding try_block_send map_result_trace otp_send_def Let_def
  by (rule first_read [where Q = "item_events i"])
     (intro yields_quiet_bind yields_quiet_quiet yields_param yields_if yields_silent
        yields_doRequest;
      simp add: per_item_parameters_def io_return_def is_validation_error_def)

lemma otp_verify_first_read:
  "\<exists>evs. snd (try_block h (str ''otp'') (str ''verify'') includeRaw i tr)
     = tr @ GetNodeParameter ''verifyWith'' i # evs"
  unfolding try_block_verify map_result_trace otp_verify_def Let_def
  by (rule first_read [where Q = "item_events i"])
     (intro yields_quiet_bind yields_quiet_quiet yields_param yields_if yields_silent
        yields_doRequest;
      simp add: per_item_parameters_def io_return_def is_validation_error_def)

lemma item_reads:
  "\<exists>evs. snd (try_block h resource operation includeRaw i tr) = tr @ evs
     \<and> (\<forall>name k. GetNodeParameter name k \<in> set evs \<longrightarrow>
           k = i \<and> name \<in> set per_item_parameters)"
proof -
  obtain evs where evs: "snd (try_block h resource operation includeRaw i tr) = tr @ evs"
    "list_all (item_event_ok i) evs"
    by (rule try_block_trace)
  from evs(2) have "\<forall>name k. GetNodeParameter name k \<in> set evs \<longrightarrow>
           k = i \<and> name \<in> set per_item_parameters"
    unfolding list_all_iff by (force simp: item_event_ok_def)
  with evs(1) show ?thesis by blast
qed

lemma run_reads:
  assumes "getNodeParameter h ''resource'' 0 None = Inr resource"
    "getNodeParameter h ''operation'' 0 None = Inr operation"
    "getNodeParameter h ''includeRaw'' 0 (Some (JBool False)) = Inr includeRaw"
  shows "\<exists>m evs. m \<le> length (getInputData h)
      \<and> snd (execute h) = trace_at h resource operation includeRaw initial_trace m
      \<and> snd (execute h) =
          [GetNodeParameter ''resource'' 0, GetNodeParameter ''operation'' 0,
           GetNodeParameter ''includeRaw'' 0] @ evs
      \<and> (\<forall>name k. GetNodeParameter name k \<in> set evs \<longrightarrow>
            name \<in> set per_item_parameters \<and> k < m)"
proof -
  from run_reaches [OF assms] obtain m where m: "m \<le> length (getInputData h)"
      "snd (execute h) = trace_at h resource operation includeRaw initial_trace m"
    by blast
  obtain evs where evs: "trace_at h resource operation includeRaw initial_trace m = initial_trace @ evs"
      "list_all (\<lambda>ev. \<exists>i<m. item_event_ok i ev) evs"
    using trace_at_events [of h resource operation includeRaw initial_trace m] by blast
  from evs(2) have "\<forall>name k. GetNodeParameter name k \<in> set evs \<longrightarrow>
            name \<in> set per_item_parameters \<and> k < m"
    unfolding list_all_iff by (force simp: item_event_ok_def)
  with m evs(1) show ?thesis unfolding initial_trace_def by auto
qed

lemma run_records:
  assumes "getNodeParameter h ''resource'' 0 None = Inr resource"
    "getNodeParameter h ''operation'' 0 None = Inr operation"
    "getNodeParameter h ''includeRaw'' 0 (Some (JBool False)) = Inr includeRaw"
    "fst (execute h) = Inr out"
  shows "out = [map (\<lambda>k. item_record k (outcome_at h resource operation includeRaw initial_trace k))
                  [0..<length (getInputData h)]]"
  using execute_returns [OF assms(4)] assms(1-3) by auto

lemma demo_send_run:
  "snd (execute (demo_host ''otp'' ''send'' True)) =
     [GetNodeParameter ''resource'' 0, GetNodeParameter ''operation'' 0,
      GetNodeParameter ''includeRaw'' 0]
     @ [GetNodeParameter ''otpMethod'' 0, GetNodeParameter ''phone'' 0, GetNodeParameter ''email'' 0,
        GetCredentials ''authenticaApi'',
        HttpRequest ''authenticaApi''
          (request_options (js ''https://api.authentica.sa'') POST (js ''/api/v2/send-otp'')
             (Some [(js ''method'', str ''sms''), (js ''phone'', str ''+966512345678'')]))
          (Inr (JObj [(js ''success'', JBool True)])),
        GetNodeParameter ''otpMethod'' 1, GetNodeParameter ''phone'' 1, GetNodeParameter ''email'' 1]"
  by code_simp

subsection \<open>The error thrown on abort\<close>



section \<open>Claims\<close>

text \<open>
  C8. \<open>isE164\<close> returns true exactly for strings whose trimmed form is a \<open>+\<close>, a digit
  1-9 and 6 to 14 further digits; \<open>isEmail\<close> returns true exactly for strings whose
  trimmed form is \<open>a@b.c\<close> with \<open>a\<close>, \<open>b\<close>, \<open>c\<close> non-empty and free of whitespace
  and \<open>@\<close>. Both treat \<open>undefined\<close> and \<open>null\<close> as the empty string and reject it,
  and both give the same answer when whitespace is added around a value.
\<close>

theorem validators_accept_exactly:
  "(isE164 v = Inr True \<longleftrightarrow> (\<exists>s. v = JStr s \<and> e164_form (trim s)))
   \<and> (isEmail v = Inr True \<longleftrightarrow> (\<exists>s. v = JStr s \<and> email_form (trim s)))
   \<and> isE164 JUndefined = isE164 (JStr []) \<and> isE164 JNull = isE164 (JStr [])
   \<and> isE164 (JStr []) = Inr False
   \<and> isEmail JUndefined = isEmail (JStr []) \<and> isEmail JNull = isEmail (JStr [])
   \<and> isEmail (JStr []) = Inr False
   \<and> (list_all is_space l \<and> list_all is_space r \<longrightarrow>
        isE164 (JStr (l @ s @ r)) = isE164 (JStr s)
        \<and> isEmail (JStr (l @ s @ r)) = isEmail (JStr s))"
proof -
  have null: "isE164 JUndefined = isE164 (JStr [])" "isE164 JNull = isE164 (JStr [])"
      "isEmail JUndefined = isEmail (JStr [])" "isEmail JNull = isEmail (JStr [])"
    by (simp_all add: isE164_def isEmail_def)
  have empty: "isE164 (JStr []) = Inr False" "isEmail (JStr []) = Inr False"
    by (simp_all add: isE164_def isEmail_def trim_def e164_pattern_def email_pattern_def)
  have pad: "isE164 (JStr (l @ s @ r)) = isE164 (JStr s)
        \<and> isEmail (JStr (l @ s @ r)) = isEmail (JStr s)"
    if "list_all is_space l" "list_all is_space r"
    using that trim_pad [of l r s] by (simp add: isE164_def isEmail_def list_all_iff)
  from isE164_iff isEmail_iff null empty pad show ?thesis by blast
qed

theorem validators_accept_exactly_witness:
  "list_all is_space (js '' '') \<and> list_all is_space (js ''  '')
   \<and> isE164 (JStr (js '' '' @ js ''+966512345678'' @ js ''  '')) = Inr True
   \<and> isEmail (JStr (js '' '' @ js ''user@example.com'' @ js ''  '')) = Inr True
   \<and> e164_form (trim (js ''+966512345678''))
   \<and> email_form (trim (js ''user@example.com''))"
proof -
  have sp: "list_all is_space (js '' '')" "list_all is_space (js ''  '')"
    by (simp_all add: js_def is_space_def)
  show ?thesis
    using sp isE164_example isEmail_example
      validators_accept_exactly [of "JStr (js ''+966512345678'')" "js '' ''" "js ''  ''" "js ''+966512345678''"]
      validators_accept_exactly [of "JStr (js ''user@example.com'')" "js '' ''" "js ''  ''" "js ''user@example.com''"]
    by simp
qed

text \<open>
  C1. For an item of an OTP operation whose parameters resolve, the item fails with the
  node's validation error (\<open>NodeOperationError\<close>) exactly when the contact identifier
  fails its check: for \<open>send\<close>, the phone against E.164 when \<open>otpMethod\<close> is not
  \<open>email\<close> and the email otherwise; for \<open>verify\<close>, \<open>verifyPhone\<close> when \<open>verifyWith\<close>
  is not \<open>email\<close> and \<open>verifyEmail\<close> otherwise. Whenever an item fails with that error,
  the item has made no HTTP request.
\<close>

theorem contact_validated_before_dispatch:
  "(getNodeParameter h ''otpMethod'' i None = Inr m
      \<and> getNodeParameter h ''phone'' i (Some (JStr [])) = Inr phone
      \<and> getNodeParameter h ''email'' i (Some (JStr [])) = Inr email \<longrightarrow>
      (is_validation_error (fst (try_block h (str ''otp'') (str ''send'') includeRaw i tr)) \<longleftrightarrow>
         (if m \<noteq> str ''email'' then isE164 phone = Inr False else isEmail email = Inr False)))
   \<and> (getNodeParameter h ''verifyWith'' i None = Inr w
      \<and> getNodeParameter h ''otp'' i None = Inr otp
      \<and> getNodeParameter h (if w = str ''email'' then ''verifyEmail'' else ''verifyPhone'') i None
            = Inr v \<longrightarrow>
      (is_validation_error (fst (try_block h (str ''otp'') (str ''verify'') includeRaw i tr)) \<longleftrightarrow>
         (if w \<noteq> str ''email'' then isE164 v = Inr False else isEmail v = Inr False)))
   \<and> (is_validation_error (fst (try_block h resource operation includeRaw i tr)) \<longrightarrow>
        http_calls (snd (try_block h resource operation includeRaw i tr)) = http_calls tr)"
  using send_validation verify_validation validation_error_no_request by blast

theorem contact_validated_before_dispatch_witness:
  "is_validation_error (fst (try_block (demo_host ''otp'' ''send'' True) (str ''otp'') (str ''send'') (JBool True) 1 initial_trace))
   \<and> is_validation_error (fst (try_block (demo_host ''otp'' ''verify'' True) (str ''otp'') (str ''verify'') (JBool True) 1 initial_trace))
   \<and> http_calls (snd (try_block (demo_host ''otp'' ''send'' True) (str ''otp'') (str ''send'') (JBool True) 1 initial_trace)) = []"
proof -
  have ne: "str ''sms'' \<noteq> str ''email''" by (simp add: js_def)
  have "http_calls initial_trace = []"
    by (simp add: http_calls_def initial_trace_def is_http_def)
  then show ?thesis
    using ne demo_invalid_phone demo_invalid_email
      contact_validated_before_dispatch [of "demo_host ''otp'' ''send'' True" 1 "str ''sms''"
        "str ''0512345678''" "JStr []" "JBool True" initial_trace "str ''email''" "str ''123456''"
        "str ''user.example.com''" "str ''otp''" "str ''send''"]
      contact_validated_before_dispatch [of "demo_host ''otp'' ''verify'' True" 1 "str ''sms''"
        "str ''0512345678''" "JStr []" "JBool True" initial_trace "str ''email''" "str ''123456''"
        "str ''user.example.com''" "str ''otp''" "str ''verify''"]
    by (simp add: demo_host_def demo_parameter_def)
qed

text \<open>
  C2. An item that passes validation, with credentials available, dispatches exactly one
  request, of the shape of its operation: \<open>send\<close> a POST to baseUrl +
  \<open>/api/v2/send-otp\<close> whose body holds \<open>method\<close> and then \<open>email\<close> (when \<open>otpMethod\<close> is
  \<open>email\<close>) or \<open>phone\<close> (otherwise); \<open>verify\<close> a POST to baseUrl + \<open>/api/v2/verify-otp\<close>
  whose body holds \<open>otp\<close> and then \<open>email\<close> or \<open>phone\<close>; \<open>getBalance\<close> a GET to baseUrl +
  \<open>/api/v2/balance\<close> without a body. The base URL is the credential's \<open>baseUrl\<close>, and
  \<open>https://api.authentica.sa\<close> when that is missing or empty.
\<close>

theorem dispatched_request_shape:
  "(getNodeParameter h ''otpMethod'' i None = Inr m
      \<and> getNodeParameter h ''phone'' i (Some (JStr [])) = Inr phone
      \<and> getNodeParameter h ''email'' i (Some (JStr [])) = Inr email
      \<and> (if m \<noteq> str ''email'' then isE164 phone else isEmail email) = Inr True
      \<and> getCredentials h ''authenticaApi'' = Inr creds \<longrightarrow>
      (\<exists>r. http_calls (drop (length tr)
              (snd (try_block h (str ''otp'') (str ''send'') includeRaw i tr))) =
         [HttpRequest ''authenticaApi''
            (request_options (base_url creds) POST (js ''/api/v2/send-otp'')
               (Some (if m = str ''email''
                      then [(js ''method'', m), (js ''email'', email)]
                      else [(js ''method'', m), (js ''phone'', phone)]))) r]))
   \<and> (getNodeParameter h ''verifyWith'' i None = Inr w
      \<and> getNodeParameter h ''otp'' i None = Inr otp
      \<and> getNodeParameter h (if w = str ''email'' then ''verifyEmail'' else ''verifyPhone'') i None
            = Inr v
      \<and> (if w = str ''email'' then isEmail v else isE164 v) = Inr True
      \<and> getCredentials h ''authenticaApi'' = Inr creds \<longrightarrow>
      (\<exists>r. http_calls (drop (length tr)
              (snd (try_block h (str ''otp'') (str ''verify'') includeRaw i tr))) =
         [HttpRequest ''authenticaApi''
            (request_options (base_url creds) POST (js ''/api/v2/verify-otp'')
               (Some (if w = str ''email''
                      then [(js ''otp'', otp), (js ''email'', v)]
                      else [(js ''otp'', otp), (js ''phone'', v)]))) r]))
   \<and> (getCredentials h ''authenticaApi'' = Inr creds \<longrightarrow>
      (\<exists>r. http_calls (drop (length tr)
              (snd (try_block h (str ''account'') (str ''getBalance'') includeRaw i tr))) =
         [HttpRequest ''authenticaApi''
            (request_options (base_url creds) GET (js ''/api/v2/balance'') None) r]))
   \<and> (creds = Some c \<and> map_of c (js ''baseUrl'') = Some u \<and> u \<noteq> [] \<longrightarrow> base_url creds = u)
   \<and> ((\<forall>c. creds = Some c \<longrightarrow> map_of c (js ''baseUrl'') \<in> {None, Some []}) \<longrightarrow>
        base_url creds = js ''https://api.authentica.sa'')"
  by (intro conjI impI; (elim conjE)?)
     ((rule send_request verify_request getBalance_request base_url_cases; assumption)+)

theorem dispatched_request_shape_witness:
  "(\<exists>r. http_calls (drop (length initial_trace)
           (snd (try_block (demo_host ''otp'' ''send'' True) (str ''otp'') (str ''send'')
                  (JBool True) 0 initial_trace))) =
      [HttpRequest ''authenticaApi''
         (request_options (js ''https://api.authentica.sa'') POST (js ''/api/v2/send-otp'')
            (Some [(js ''method'', str ''sms''), (js ''phone'', str ''+966512345678'')])) r])
   \<and> (\<exists>r. http_calls (drop (length initial_trace)
           (snd (try_block (demo_host ''account'' ''getBalance'' True) (str ''account'')
                  (str ''getBalance'') (JBool True) 0 initial_trace))) =
      [HttpRequest ''authenticaApi''
         (request_options (js ''https://api.authentica.sa'') GET (js ''/api/v2/balance'') None) r])"
proof -
  have ne: "str ''sms'' \<noteq> str ''email''" by (simp add: js_def)
  show ?thesis
    using ne isE164_example demo_credentials
      dispatched_request_shape [where h = "demo_host ''otp'' ''send'' True" and i = 0
        and m = "str ''sms''" and phone = "str ''+966512345678''" and email = "JStr []"
        and creds = "Some [(js ''apiKey'', js ''key-1''), (js ''baseUrl'', [])]"
        and tr = initial_trace and includeRaw = "JBool True"]
      dispatched_request_shape [where h = "demo_host ''account'' ''getBalance'' True" and i = 0
        and creds = "Some [(js ''apiKey'', js ''key-1''), (js ''baseUrl'', [])]"
        and tr = initial_trace and includeRaw = "JBool True"]
    by (simp add: demo_host_def demo_parameter_def)
qed




text \<open>
  C4. When no error escapes, \<open>execute\<close> returns exactly one branch, whose records are, in
  input order, one record per input item: the record of item \<open>k\<close> is \<open>{ json: out }\<close> when
  the item succeeded with \<open>out\<close> and the error record of index \<open>k\<close> when it failed under
  continue-on-fail. No error escapes when the three run parameters resolve and either
  continue-on-fail holds or every item succeeds. An item whose resource and operation match
  no branch succeeds with the empty object and makes no host call.
\<close>

theorem one_record_per_item:
  "(fst (execute h) = Inr out \<longrightarrow>
      (\<exists>resource operation includeRaw.
          getNodeParameter h ''resource'' 0 None = Inr resource
        \<and> getNodeParameter h ''operation'' 0 None = Inr operation
        \<and> getNodeParameter h ''includeRaw'' 0 (Some (JBool False)) = Inr includeRaw
        \<and> out = [map (\<lambda>k. item_record k (outcome_at h resource operation includeRaw initial_trace k))
                    [0..<length (getInputData h)]]))
   \<and> (getNodeParameter h ''resource'' 0 None = Inr resource
      \<and> getNodeParameter h ''operation'' 0 None = Inr operation
      \<and> getNodeParameter h ''includeRaw'' 0 (Some (JBool False)) = Inr includeRaw
      \<and> (continueOnFail h
           \<or> (\<forall>k<length (getInputData h).
                 \<exists>out. outcome_at h resource operation includeRaw initial_trace k = Inr out)) \<longrightarrow>
      fst (execute h) =
        Inr [map (\<lambda>k. item_record k (outcome_at h resource operation includeRaw initial_trace k))
               [0..<length (getInputData h)]])
   \<and> (\<not> (resource = str ''otp'' \<and> operation = str ''send'')
      \<and> \<not> (resource = str ''otp'' \<and> operation = str ''verify'')
      \<and> \<not> (resource = str ''account'' \<and> operation = str ''getBalance'') \<longrightarrow>
      try_block h resource operation includeRaw k tr = (Inr [], tr))"
proof (intro conjI impI; (elim conjE)?)
  assume "fst (execute h) = Inr out"
  then show "\<exists>resource operation includeRaw.
          getNodeParameter h ''resource'' 0 None = Inr resource
        \<and> getNodeParameter h ''operation'' 0 None = Inr operation
        \<and> getNodeParameter h ''includeRaw'' 0 (Some (JBool False)) = Inr includeRaw
        \<and> out = [map (\<lambda>k. item_record k (outcome_at h resource operation includeRaw initial_trace k))
                    [0..<length (getInputData h)]]"
    by (rule execute_returns)
next
  assume "getNodeParameter h ''resource'' 0 None = Inr resource"
    "getNodeParameter h ''operation'' 0 None = Inr operation"
    "getNodeParameter h ''includeRaw'' 0 (Some (JBool False)) = Inr includeRaw"
    "continueOnFail h
           \<or> (\<forall>k<length (getInputData h).
                 \<exists>out. outcome_at h resource operation includeRaw initial_trace k = Inr out)"
  then show "fst (execute h) =
        Inr [map (\<lambda>k. item_record k (outcome_at h resource operation includeRaw initial_trace k))
               [0..<length (getInputData h)]]"
    by (simp add: execute_completes)
next
  assume "\<not> (resource = str ''otp'' \<and> operation = str ''send'')"
    "\<not> (resource = str ''otp'' \<and> operation = str ''verify'')"
    "\<not> (resource = str ''account'' \<and> operation = str ''getBalance'')"
  then show "try_block h resource operation includeRaw k tr = (Inr [], tr)"
    by (simp add: try_block_other io_return_def)
qed

theorem one_record_per_item_witness:
  "fst (execute (demo_host ''otp'' ''send'' True)) =
     Inr [[\<lparr> json = [(js ''success'', JBool True), (js ''raw'', JObj [(js ''success'', JBool True)])],
             pairedItem = None \<rparr>,
           \<lparr> json = [(js ''error'', JStr (js ''Phone must be E.164, e.g. +9665XXXXXXX''))],
             pairedItem = Some 1 \<rparr>]]
   \<and> (\<exists>resource operation includeRaw.
         getNodeParameter (demo_host ''account'' ''send'' False) ''resource'' 0 None = Inr resource
       \<and> getNodeParameter (demo_host ''account'' ''send'' False) ''operation'' 0 None = Inr operation
       \<and> getNodeParameter (demo_host ''account'' ''send'' False) ''includeRaw'' 0 (Some (JBool False))
             = Inr includeRaw
       \<and> [[\<lparr> json = [], pairedItem = None \<rparr>, \<lparr> json = [], pairedItem = None \<rparr>]] =
         [map (\<lambda>k. item_record k
                 (outcome_at (demo_host ''account'' ''send'' False) resource operation includeRaw
                    initial_trace k))
            [0..<length (getInputData (demo_host ''account'' ''send'' False))]])
   \<and> try_block (demo_host ''account'' ''send'' False) (str ''account'') (str ''send'') (JBool True) 0
         initial_trace = (Inr [], initial_trace)"
proof -
  let ?h1 = "demo_host ''otp'' ''send'' True" and ?h2 = "demo_host ''account'' ''send'' False"
  note thm1 = one_record_per_item [where h = ?h1
        and resource = "str ''otp''" and operation = "str ''send''" and includeRaw = "JBool True"]
  note thm2 = one_record_per_item [where h = ?h2
        and out = "[[\<lparr> json = [], pairedItem = None \<rparr>, \<lparr> json = [], pairedItem = None \<rparr>]]"
        and resource = "str ''account''" and operation = "str ''send''" and includeRaw = "JBool True"
        and k = 0 and tr = initial_trace]
  have "fst (execute ?h1) =
      Inr [map (\<lambda>k. item_record k (outcome_at ?h1 (str ''otp'') (str ''send'') (JBool True) initial_trace k))
             [0..<length (getInputData ?h1)]]"
    using thm1 by (simp only: demo_reads simp_thms)
  then have 1: "fst (execute ?h1) =
     Inr [[\<lparr> json = [(js ''success'', JBool True), (js ''raw'', JObj [(js ''success'', JBool True)])],
             pairedItem = None \<rparr>,
           \<lparr> json = [(js ''error'', JStr (js ''Phone must be E.164, e.g. +9665XXXXXXX''))],
             pairedItem = Some 1 \<rparr>]]"
    by (simp add: demo_reads upt_2 demo_send_outcomes)
  note 2 = thm2 [THEN conjunct1, THEN mp, OF demo_unmatched_run]
  have "str ''account'' \<noteq> str ''otp''" "str ''send'' \<noteq> str ''getBalance''"
    by (simp_all add: js_def)
  with thm2 have 3: "try_block ?h2 (str ''account'') (str ''send'') (JBool True) 0 initial_trace =
      (Inr [], initial_trace)"
    by blast
  from 1 2 3 show ?thesis by (intro conjI)
qed

text \<open>
  C9. For \<open>getBalance\<close> and a response that is not \<open>undefined\<close> or \<open>null\<close>, the balance
  of the output is \<open>balance_chain\<close> of the response: \<open>data\<close> is the response's \<open>data\<close> field
  when that is set (neither \<open>undefined\<close> nor \<open>null\<close>) and the response itself otherwise;
  the balance is \<open>data.balance\<close> when that is set and \<open>data.data.balance\<close> otherwise. The
  item then succeeds with \<open>{ balance }\<close> (and \<open>raw\<close> when requested); when neither
  \<open>data.balance\<close> nor \<open>data.data.balance\<close> exists the balance is \<open>undefined\<close>, not an
  error.
\<close>

theorem balance_fallback_chain:
  "(is_set res \<longrightarrow> extract_balance res = Inr (balance_chain res))
   \<and> (getCredentials h ''authenticaApi'' = Inr creds
      \<and> httpRequestWithAuthentication h (tr @ [GetCredentials ''authenticaApi'']) ''authenticaApi''
           (request_options (base_url creds) GET (js ''/api/v2/balance'') None) = Inr res
      \<and> is_set res \<longrightarrow>
      fst (try_block h (str ''account'') (str ''getBalance'') includeRaw i tr) =
        Inr (if truthy includeRaw \<and> truthy res
             then [(js ''balance'', balance_chain res), (js ''raw'', res)]
             else [(js ''balance'', balance_chain res)]))
   \<and> (member (if is_set (member res ''data'') then member res ''data'' else res) ''balance''
         = JUndefined
      \<and> member (member (if is_set (member res ''data'') then member res ''data'' else res) ''data'')
           ''balance'' = JUndefined \<longrightarrow>
      balance_chain res = JUndefined)"
  by (intro conjI impI; (elim conjE)?)
     ((rule extract_balance_chain getBalance_outcome balance_missing; assumption)+)

theorem balance_fallback_chain_witness:
  "fst (try_block (demo_host ''account'' ''getBalance'' True) (str ''account'') (str ''getBalance'')
          (JBool True) 0 initial_trace) =
     Inr [(js ''balance'', JNum 100),
          (js ''raw'', JObj [(js ''data'', JObj [(js ''balance'', JNum 100)])])]
   \<and> extract_balance (JObj [(js ''balance'', JNull), (js ''data'', JObj [(js ''balance'', JNum 7)])])
       = Inr (JNum 7)
   \<and> extract_balance (JObj [(js ''credits'', JNum 5)]) = Inr JUndefined"
  using demo_balance_response demo_credentials demo_balance_chain
    balance_fallback_chain [where h = "demo_host ''account'' ''getBalance'' True"
      and creds = "Some [(js ''apiKey'', js ''key-1''), (js ''baseUrl'', [])]"
      and tr = initial_trace and i = 0 and includeRaw = "JBool True"
      and res = "JObj [(js ''data'', JObj [(js ''balance'', JNum 100)])]"]
    balance_fallback_chain [where res = "JObj [(js ''balance'', JNull), (js ''data'', JObj [(js ''balance'', JNum 7)])]"]
    balance_fallback_chain [where res = "JObj [(js ''credits'', JNum 5)]"]
  by simp

text \<open>
  C6. An item that completes without error has received a response \<open>res\<close> (the answer
  recorded with the item's last host call), and its output record is fixed by the
  operation: \<open>{ success: true }\<close> for \<open>send\<close>, \<open>{ verified: true }\<close> for \<open>verify\<close>,
  \<open>{ balance }\<close> with the extracted balance for \<open>getBalance\<close>; the response is attached
  under \<open>raw\<close> exactly when \<open>includeRaw && res\<close> holds, which for a boolean \<open>includeRaw\<close>
  and a response object is exactly when \<open>includeRaw\<close> is true. An item that matches no
  branch receives no response and yields the empty record.
\<close>

theorem output_record_per_operation:
  "(fst (try_block h (str ''otp'') (str ''send'') includeRaw i tr) = Inr out \<longrightarrow>
      (\<exists>cred options res.
         last (snd (try_block h (str ''otp'') (str ''send'') includeRaw i tr))
           = HttpRequest cred options (Inr res)
         \<and> out = [(js ''success'', JBool True)]
                 @ (if truthy includeRaw \<and> truthy res then [(js ''raw'', res)] else [])))
   \<and> (fst (try_block h (str ''otp'') (str ''verify'') includeRaw i tr) = Inr out \<longrightarrow>
      (\<exists>cred options res.
         last (snd (try_block h (str ''otp'') (str ''verify'') includeRaw i tr))
           = HttpRequest cred options (Inr res)
         \<and> out = [(js ''verified'', JBool True)]
                 @ (if truthy includeRaw \<and> truthy res then [(js ''raw'', res)] else [])))
   \<and> (fst (try_block h (str ''account'') (str ''getBalance'') includeRaw i tr) = Inr out \<longrightarrow>
      (\<exists>cred options res balance.
         last (snd (try_block h (str ''account'') (str ''getBalance'') includeRaw i tr))
           = HttpRequest cred options (Inr res)
         \<and> extract_balance res = Inr balance
         \<and> out = [(js ''balance'', balance)]
                 @ (if truthy includeRaw \<and> truthy res then [(js ''raw'', res)] else [])))
   \<and> (\<not> (resource = str ''otp'' \<and> operation = str ''send'')
      \<and> \<not> (resource = str ''otp'' \<and> operation = str ''verify'')
      \<and> \<not> (resource = str ''account'' \<and> operation = str ''getBalance'') \<longrightarrow>
      try_block h resource operation includeRaw i tr = (Inr [], tr))
   \<and> (truthy (JBool b) \<and> truthy (JObj kvs) \<longleftrightarrow> b)"
proof (intro conjI impI; (elim conjE)?)
  assume "\<not> (resource = str ''otp'' \<and> operation = str ''send'')"
    "\<not> (resource = str ''otp'' \<and> operation = str ''verify'')"
    "\<not> (resource = str ''account'' \<and> operation = str ''getBalance'')"
  then show "try_block h resource operation includeRaw i tr = (Inr [], tr)"
    by (simp add: try_block_other io_return_def)
qed ((rule send_outcome verify_outcome getBalance_success; assumption) | simp)+

theorem output_record_per_operation_witness:
  "\<exists>cred options res.
      last (snd (try_block (demo_host ''otp'' ''send'' True) (str ''otp'') (str ''send'') (JBool True) 0
                   initial_trace)) = HttpRequest cred options (Inr res)
      \<and> [(js ''success'', JBool True), (js ''raw'', JObj [(js ''success'', JBool True)])] =
          [(js ''success'', JBool True)]
            @ (if truthy (JBool True) \<and> truthy res then [(js ''raw'', res)] else [])"
proof -
  have "fst (try_block (demo_host ''otp'' ''send'' True) (str ''otp'') (str ''send'') (JBool True) 0
               initial_trace) =
      Inr [(js ''success'', JBool True), (js ''raw'', JObj [(js ''success'', JBool True)])]"
    by (simp only: demo_outcomes fst_conv)
  then show ?thesis
    by (rule output_record_per_operation [THEN conjunct1, THEN mp])
qed

text \<open>
  C5. Every request of a run, whatever the operation, is handed to the host's
  authenticating transport under the credential name \<open>authenticaApi\<close>, the name of the
  credential type. The \<open>authenticate\<close> block of that type, applied by the host to any
  request with the stored credentials, sets the header \<open>X-Authorization\<close> to the stored
  API key and \<open>Accept\<close> to \<open>application/json\<close>.
\<close>

theorem requests_authenticated:
  "(HttpRequest cred options r \<in> set (snd (execute h)) \<longrightarrow> cred = AuthenticaApi_name)
   \<and> (map_of creds (js ''apiKey'') = Some key \<longrightarrow>
        map_of (headers (inject_authentication AuthenticaApi_authenticate creds options))
          (js ''X-Authorization'') = Some key
        \<and> map_of (headers (inject_authentication AuthenticaApi_authenticate creds options))
          (js ''Accept'') = Some (js ''application/json''))"
proof (intro conjI impI)
  assume "HttpRequest cred options r \<in> set (snd (execute h))"
  from run_event_cases [OF this] show "cred = AuthenticaApi_name"
    by (auto simp: initial_trace_def item_event_ok_def AuthenticaApi_name_def)
qed (simp_all add: injected_headers)

theorem requests_authenticated_witness:
  "HttpRequest ''authenticaApi''
     (request_options (js ''https://api.authentica.sa'') GET (js ''/api/v2/balance'') None)
     (Inr (JObj [(js ''data'', JObj [(js ''balance'', JNum 100)])]))
     \<in> set (snd (execute (demo_host ''account'' ''getBalance'' True)))
   \<and> ''authenticaApi'' = AuthenticaApi_name
   \<and> map_of (headers (inject_authentication AuthenticaApi_authenticate
          [(js ''apiKey'', js ''key-1''), (js ''baseUrl'', [])]
          (request_options (js ''https://api.authentica.sa'') GET (js ''/api/v2/balance'') None)))
        (js ''X-Authorization'') = Some (js ''key-1'')"
proof -
  have 1: "HttpRequest ''authenticaApi''
     (request_options (js ''https://api.authentica.sa'') GET (js ''/api/v2/balance'') None)
     (Inr (JObj [(js ''data'', JObj [(js ''balance'', JNum 100)])]))
     \<in> set (snd (execute (demo_host ''account'' ''getBalance'' True)))"
    unfolding demo_balance_run by simp
  have 2: "map_of [(js ''apiKey'', js ''key-1''), (js ''baseUrl'', [])] (js ''apiKey'') = Some (js ''key-1'')"
    by simp
  from 1 2 requests_authenticated [where h = "demo_host ''account'' ''getBalance'' True"
      and cred = "''authenticaApi''"
      and options = "request_options (js ''https://api.authentica.sa'') GET (js ''/api/v2/balance'') None"
      and r = "Inr (JObj [(js ''data'', JObj [(js ''balance'', JNum 100)])])"
      and creds = "[(js ''apiKey'', js ''key-1''), (js ''baseUrl'', [])]" and key = "js ''key-1''"]
  show ?thesis by blast
qed

text \<open>
  C7, as amended. Every item adds at most one HTTP request to the run, whether it
  succeeds or fails (no retry), so a run over \<open>n\<close> items makes at most \<open>n\<close> requests. In
  account/getBalance mode, when the credentials resolve and the run is not aborted
  (continue-on-fail is set, or every item succeeds), the requests of the run are exactly
  \<open>n\<close> GET balance requests, one per item in order, each answered by a fresh call of the
  transport in the state the run has reached (no caching).
\<close>

theorem one_request_per_item:
  "length (http_calls (snd (try_block h resource operation includeRaw i tr)))
     \<le> length (http_calls tr) + 1
   \<and> length (http_calls (snd (execute h))) \<le> length (getInputData h)
   \<and> (getNodeParameter h ''resource'' 0 None = Inr (str ''account'')
      \<and> getNodeParameter h ''operation'' 0 None = Inr (str ''getBalance'')
      \<and> getNodeParameter h ''includeRaw'' 0 (Some (JBool False)) = Inr w
      \<and> getCredentials h ''authenticaApi'' = Inr creds
      \<and> (continueOnFail h \<or> (\<forall>k<length (getInputData h).
            \<exists>out. outcome_at h (str ''account'') (str ''getBalance'') w initial_trace k = Inr out))
      \<longrightarrow>
      http_calls (snd (execute h)) =
        map (\<lambda>k. HttpRequest ''authenticaApi''
                    (request_options (base_url creds) GET (js ''/api/v2/balance'') None)
                    (httpRequestWithAuthentication h
                       (trace_at h (str ''account'') (str ''getBalance'') w initial_trace k
                          @ [GetCredentials ''authenticaApi''])
                       ''authenticaApi''
                       (request_options (base_url creds) GET (js ''/api/v2/balance'') None)))
          [0..<length (getInputData h)])"
  by (intro conjI impI item_calls_bound run_calls_bound; (elim conjE)?)
     (rule getBalance_run_calls; assumption)

text \<open>
  C7 as stated fails: a getBalance run over two items whose first request fails, without
  continue-on-fail, is aborted after one request.
\<close>

theorem one_request_per_item_counterexample:
  "getNodeParameter failing_host ''resource'' 0 None = Inr (str ''account'')
   \<and> getNodeParameter failing_host ''operation'' 0 None = Inr (str ''getBalance'')
   \<and> length (getInputData failing_host) = 2
   \<and> length (http_calls (snd (execute failing_host))) = 1
   \<and> length (http_calls (snd (execute failing_host))) \<noteq> length (getInputData failing_host)"
  unfolding failing_run
  by (simp add: failing_host_def demo_reads http_calls_simps)

theorem one_request_per_item_witness:
  "length (http_calls (snd (execute (demo_host ''account'' ''getBalance'' True)))) = 2
   \<and> http_calls (snd (execute (demo_host ''account'' ''getBalance'' True))) =
     map (\<lambda>k. HttpRequest ''authenticaApi''
                 (request_options (js ''https://api.authentica.sa'') GET (js ''/api/v2/balance'') None)
                 (httpRequestWithAuthentication (demo_host ''account'' ''getBalance'' True)
                    (trace_at (demo_host ''account'' ''getBalance'' True) (str ''account'')
                       (str ''getBalance'') (JBool True) initial_trace k
                       @ [GetCredentials ''authenticaApi''])
                    ''authenticaApi''
                    (request_options (js ''https://api.authentica.sa'') GET (js ''/api/v2/balance'') None)))
       [0..<length (getInputData (demo_host ''account'' ''getBalance'' True))]"
proof -
  have "http_calls (snd (execute (demo_host ''account'' ''getBalance'' True))) =
     map (\<lambda>k. HttpRequest ''authenticaApi''
                 (request_options (base_url (Some [(js ''apiKey'', js ''key-1''), (js ''baseUrl'', [])]))
                    GET (js ''/api/v2/balance'') None)
                 (httpRequestWithAuthentication (demo_host ''account'' ''getBalance'' True)
                    (trace_at (demo_host ''account'' ''getBalance'' True) (str ''account'')
                       (str ''getBalance'') (JBool True) initial_trace k
                       @ [GetCredentials ''authenticaApi''])
                    ''authenticaApi''
                    (request_options (base_url (Some [(js ''apiKey'', js ''key-1''), (js ''baseUrl'', [])]))
                       GET (js ''/api/v2/balance'') None)))
       [0..<length (getInputData (demo_host ''account'' ''getBalance'' True))]"
    using one_request_per_item [where h = "demo_host ''account'' ''getBalance'' True"
        and w = "JBool True" and creds = "Some [(js ''apiKey'', js ''key-1''), (js ''baseUrl'', [])]"]
    by (simp only: demo_reads demo_credentials simp_thms)
  then show ?thesis
    unfolding demo_credentials by (simp add: demo_reads)
qed

text \<open>
  C10. When the three run parameters resolve, the run starts with exactly the reads of
  \<open>resource\<close>, \<open>operation\<close> and \<open>includeRaw\<close> at index 0; the host calls that follow are those
  of the try block run with these same three values for items \<open>0, 1, \<dots>\<close> in turn, the
  records returned are the items' records under these values, and no later call reads a
  run parameter again. Every parameter read made while item \<open>i\<close> is processed is a read
  of a per-item parameter at index \<open>i\<close>; \<open>send\<close> and \<open>verify\<close> items begin with such a
  read.
\<close>

theorem parameter_resolution_indices:
  "(getNodeParameter h ''resource'' 0 None = Inr resource
      \<and> getNodeParameter h ''operation'' 0 None = Inr operation
      \<and> getNodeParameter h ''includeRaw'' 0 (Some (JBool False)) = Inr includeRaw \<longrightarrow>
      (\<exists>m evs. m \<le> length (getInputData h)
         \<and> snd (execute h) = trace_at h resource operation includeRaw initial_trace m
         \<and> snd (execute h) =
             [GetNodeParameter ''resource'' 0, GetNodeParameter ''operation'' 0,
              GetNodeParameter ''includeRaw'' 0] @ evs
         \<and> (\<forall>name k. GetNodeParameter name k \<in> set evs \<longrightarrow>
               name \<in> set per_item_parameters \<and> k < m))
      \<and> (fst (execute h) = Inr out \<longrightarrow>
           out = [map (\<lambda>k. item_record k
                            (outcome_at h resource operation includeRaw initial_trace k))
                    [0..<length (getInputData h)]]))
   \<and> (\<exists>evs. snd (try_block h resource operation includeRaw i tr) = tr @ evs
         \<and> (\<forall>name k. GetNodeParameter name k \<in> set evs \<longrightarrow>
               k = i \<and> name \<in> set per_item_parameters))
   \<and> (\<exists>evs. snd (try_block h (str ''otp'') (str ''send'') includeRaw i tr)
          = tr @ GetNodeParameter ''otpMethod'' i # evs)
   \<and> (\<exists>evs. snd (try_block h (str ''otp'') (str ''verify'') includeRaw i tr)
          = tr @ GetNodeParameter ''verifyWith'' i # evs)
   \<and> set per_item_parameters =
        {''otpMethod'', ''phone'', ''email'', ''verifyWith'', ''verifyPhone'', ''verifyEmail'', ''otp''}"
proof (intro conjI impI; (elim conjE)?)
  show "set per_item_parameters =
        {''otpMethod'', ''phone'', ''email'', ''verifyWith'', ''verifyPhone'', ''verifyEmail'', ''otp''}"
    by (simp add: per_item_parameters_def)
qed ((rule run_reads run_records item_reads otp_send_first_read otp_verify_first_read; assumption?)+)

theorem parameter_resolution_indices_witness:
  "(\<exists>m evs. m \<le> length (getInputData (demo_host ''otp'' ''send'' True))
      \<and> snd (execute (demo_host ''otp'' ''send'' True)) =
          trace_at (demo_host ''otp'' ''send'' True) (str ''otp'') (str ''send'') (JBool True)
            initial_trace m
      \<and> snd (execute (demo_host ''otp'' ''send'' True)) =
          [GetNodeParameter ''resource'' 0, GetNodeParameter ''operation'' 0,
           GetNodeParameter ''includeRaw'' 0] @ evs
      \<and> (\<forall>name k. GetNodeParameter name k \<in> set evs \<longrightarrow>
            name \<in> set per_item_parameters \<and> k < m))
   \<and> GetNodeParameter ''phone'' 1 \<in> set (snd (execute (demo_host ''otp'' ''send'' True)))"
proof -
  note inst = parameter_resolution_indices [where h = "demo_host ''otp'' ''send'' True"
      and resource = "str ''otp''" and operation = "str ''send''" and includeRaw = "JBool True",
      THEN conjunct1, THEN mp, OF conjI [OF demo_reads(1) conjI [OF demo_reads(2) demo_reads(3)]],
      THEN conjunct1]
  have "GetNodeParameter ''phone'' 1 \<in> set (snd (execute (demo_host ''otp'' ''send'' True)))"
    unfolding demo_send_run by simp
  with inst show ?thesis by (intro conjI)
qed

end
